theory Spec2Isabelle
  imports Complex_Main "HOL-Library.AList"
begin

section \<open>Values, states and easing\<close>

text \<open>
  Embedding of \<^verbatim>\<open>src/tweenable.js\<close>. JavaScript numbers are modelled by exact
  rationals. A property value is a number or a string; the two remaining constructors
  stand for a number, respectively a string, that this embedding does not track (NaN,
  an infinity, or the outcome of a coercion between strings and numbers). They keep
  \<^verbatim>\<open>typeof\<close> right, which is all the source ever inspects of such a value.

  A plain object is an association list in property order; \<open>AList.update\<close> is the
  assignment \<^verbatim>\<open>obj[key] = v\<close> (in place for an existing key, appended otherwise).
  Property names are taken to be own data properties: no name collides with an
  inherited member.
\<close>

datatype val = Num rat | Str string | NumOther | StrOther

type_synonym state = "(string \<times> val) list"

type_synonym easingFn = "rat \<Rightarrow> rat"

text \<open>The module-level table \<^verbatim>\<open>formulas\<close> (curve name to curve function).\<close>

type_synonym formulas = "string \<Rightarrow> easingFn option"

datatype easingItem = Named string | Func easingFn

text \<open>
  A composed easing is what \<^verbatim>\<open>composeEasingObject\<close> returns: one function, or an
  object holding a curve name or a function for each property.
\<close>

datatype easing = Single easingFn | PerProperty "(string \<times> easingItem) list"

datatype error = TypeError

definition DEFAULT_EASING :: string where
  "DEFAULT_EASING = ''linear''"

definition DEFAULT_DURATION :: rat where
  "DEFAULT_DURATION = 500"

text \<open>
  Modelled from the spec: the curve registered under the default name. The module
  \<^verbatim>\<open>easing-functions\<close> is not part of the sources at hand; the spec calls the default
  curve linear, the identity on the normalized position.
\<close>

definition linear :: easingFn where
  "linear pos = pos"

fun isString :: "val \<Rightarrow> bool" where
  "isString (Str s) = True"
| "isString StrOther = True"
| "isString v = False"

text \<open>
  \<^verbatim>\<open>start + (targetState[key] - start) * easedPosition\<close> on values. The position is
  \<open>None\<close> when it is not a finite number. With a string for \<^verbatim>\<open>start\<close> the sum is a
  string concatenation; every other combination that leaves the finite numbers is
  still a number.
\<close>

fun interpolate :: "val option \<Rightarrow> val option \<Rightarrow> rat option \<Rightarrow> val" where
  "interpolate (Some (Num start)) (Some (Num target)) (Some easedPosition) =
     Num (start + (target - start) * easedPosition)"
| "interpolate (Some (Str s)) target easedPosition = StrOther"
| "interpolate (Some StrOther) target easedPosition = StrOther"
| "interpolate start target easedPosition = NumOther"

text \<open>
  \<^verbatim>\<open>forPosition < timestamp ? 0 : (forPosition - timestamp) / duration\<close>. A duration
  that is \<^verbatim>\<open>undefined\<close> (\<open>None\<close>) or zero gives a position outside the finite numbers.
\<close>

definition normalizedPosition :: "rat \<Rightarrow> rat \<Rightarrow> rat option \<Rightarrow> rat option" where
  "normalizedPosition forPosition timestamp duration =
     (if forPosition < timestamp then Some 0
      else case duration of
             None \<Rightarrow> None
           | Some d \<Rightarrow> if d = 0 then None else Some ((forPosition - timestamp) / d))"

text \<open>
  The easing function of one property, when the easing is not a single function:
  \<^verbatim>\<open>easing[key]\<close>, looked up in \<^verbatim>\<open>formulas\<close> unless it is a function itself. \<open>None\<close> is
  the TypeError of the source: no easing at all, no entry for the key, or a name that
  \<^verbatim>\<open>formulas\<close> does not hold.
\<close>

fun easingFnFor :: "formulas \<Rightarrow> easing option \<Rightarrow> string \<Rightarrow> easingFn option" where
  "easingFnFor fm (Some (PerProperty m)) key =
     (case map_of m key of
        None \<Rightarrow> None
      | Some (Func f) \<Rightarrow> Some f
      | Some (Named n) \<Rightarrow> fm n)"
| "easingFnFor fm e key = None"

text \<open>
  The result of \<^verbatim>\<open>tweenProps\<close>: the current state as the loop left it, the number of
  calls of an easing function it made, and the error that ended it, if any.
\<close>

record tweenPropsResult =
  r_state :: state
  r_easingCalls :: nat
  r_error :: "error option"

text \<open>
  The loop \<^verbatim>\<open>for (const key in currentState)\<close>. \<open>oneEase\<close> is \<open>Some easedPosition\<close>
  when \<^verbatim>\<open>hasOneEase\<close> is set. A TypeError leaves the properties written so far.
\<close>

fun tweenProps_loop ::
  "formulas \<Rightarrow> rat option \<Rightarrow> easing option \<Rightarrow> rat option option \<Rightarrow> state \<Rightarrow> state \<Rightarrow>
   string list \<Rightarrow> state \<Rightarrow> nat \<Rightarrow> tweenPropsResult" where
  "tweenProps_loop fm np easing oneEase originalState targetState [] currentState n =
     \<lparr>r_state = currentState, r_easingCalls = n, r_error = None\<rparr>"
| "tweenProps_loop fm np easing oneEase originalState targetState (key # keys) currentState n =
     (case oneEase of
        Some easedPosition \<Rightarrow>
          tweenProps_loop fm np easing oneEase originalState targetState keys
            (AList.update key
               (interpolate (map_of originalState key) (map_of targetState key) easedPosition)
               currentState) n
      | None \<Rightarrow>
          (case easingFnFor fm easing key of
             None \<Rightarrow> \<lparr>r_state = currentState, r_easingCalls = n, r_error = Some TypeError\<rparr>
           | Some easingFn \<Rightarrow>
               tweenProps_loop fm np easing oneEase originalState targetState keys
                 (AList.update key
                    (interpolate (map_of originalState key) (map_of targetState key)
                       (map_option easingFn np))
                    currentState) (Suc n)))"

definition tweenProps ::
  "formulas \<Rightarrow> rat \<Rightarrow> state \<Rightarrow> state \<Rightarrow> state \<Rightarrow> rat option \<Rightarrow> rat \<Rightarrow> easing option \<Rightarrow>
   tweenPropsResult" where
  "tweenProps fm forPosition currentState originalState targetState duration timestamp easing =
     (let np = normalizedPosition forPosition timestamp duration in
      case easing of
        Some (Single f) \<Rightarrow>
          tweenProps_loop fm np easing (Some (map_option f np)) originalState targetState
            (map fst currentState) currentState 1
      | _ \<Rightarrow>
          tweenProps_loop fm np easing None originalState targetState
            (map fst currentState) currentState 0)"


section \<open>Tweenables, filters and the world\<close>

text \<open>The opaque payload \<^verbatim>\<open>_data\<close>: the empty object of the constructor, or a caller's.\<close>

datatype data = EmptyData | Data nat

text \<open>
  What a filter hook may read and rewrite of the tweenable it is handed: the three
  states and the easing. A hook, like \<^verbatim>\<open>doesApply\<close>, is a function on this view: it
  returns normally and touches nothing else.
\<close>

record tview =
  v_currentState :: state
  v_originalState :: state
  v_targetState :: state
  v_easing :: "easing option"

datatype hookName = TWEEN_CREATED | BEFORE_TWEEN | AFTER_TWEEN | AFTER_TWEEN_END

record tfilter =
  f_name :: string
  doesApply :: "tview \<Rightarrow> bool"
  tweenCreated :: "(tview \<Rightarrow> tview) option"
  beforeTween :: "(tview \<Rightarrow> tview) option"
  afterTween :: "(tview \<Rightarrow> tview) option"
  afterTweenEnd :: "(tview \<Rightarrow> tview) option"

text \<open>\<^verbatim>\<open>filterType[filterName]\<close>\<close>

fun hook :: "tfilter \<Rightarrow> hookName \<Rightarrow> (tview \<Rightarrow> tview) option" where
  "hook filterType TWEEN_CREATED = tweenCreated filterType"
| "hook filterType BEFORE_TWEEN = beforeTween filterType"
| "hook filterType AFTER_TWEEN = afterTween filterType"
| "hook filterType AFTER_TWEEN_END = afterTweenEnd filterType"

datatype easingSpec = EName string | EFunc easingFn | EMap "(string \<times> easingItem) list"

text \<open>
  A \<^verbatim>\<open>tweenConfig\<close> object; \<open>None\<close> is an absent option. Callbacks and completion
  continuations are named by numbers; calling one appends an event to the log of the
  world.
\<close>

record tweenConfig =
  c_from :: "state option"
  c_to :: "state option"
  c_duration :: "rat option"
  c_delay :: "rat option"
  c_easing :: "easingSpec option"
  c_start :: "nat option"
  c_render :: "nat option"
  c_step :: "nat option"
  c_finish :: "nat option"
  c_data :: "data option"
  c_attachment :: "data option"

definition emptyConfig :: tweenConfig where
  "emptyConfig =
     \<lparr>c_from = None, c_to = None, c_duration = None, c_delay = None, c_easing = None,
      c_start = None, c_render = None, c_step = None, c_finish = None, c_data = None,
      c_attachment = None\<rparr>"

text \<open>
  The calls the engine makes to its collaborators, in order: the start and render
  callbacks with their arguments (an offset of \<open>None\<close> is NaN), the completion
  continuations with \<^verbatim>\<open>{data, state, tweenable}\<close>, and the hooks of filters.
\<close>

datatype event =
    Start nat state data
  | Render nat state data "rat option"
  | Resolve nat data state nat
  | Reject nat data state nat
  | Hook string hookName

text \<open>
  The fields of a \<^verbatim>\<open>Tweenable\<close>. \<^verbatim>\<open>_currentState\<close> is a reference into the store of
  plain objects, since the caller supplies that object and \<^verbatim>\<open>get\<close> copies it; the
  original and target states are private objects and held by value. \<open>None\<close> is
  \<^verbatim>\<open>null\<close> or \<^verbatim>\<open>undefined\<close>, and the \<^verbatim>\<open>noop\<close> function for a callback.
\<close>

record tweenable =
  t_config :: tweenConfig
  t_data :: data
  t_delay :: rat
  t_filters :: "tfilter list"
  t_next :: "nat option"
  t_previous :: "nat option"
  t_timestamp :: "rat option"
  t_resolve :: "nat option"
  t_reject :: "nat option"
  t_currentState :: nat
  t_originalState :: state
  t_targetState :: state
  t_start :: "nat option"
  t_render :: "nat option"
  t_duration :: "rat option"
  t_easing :: "easing option"
  t_isPlaying :: bool
  t_pausedAtTime :: "rat option"

text \<open>
  The module state and the heap: every \<^verbatim>\<open>Tweenable\<close> object by its identity, the
  plain objects that serve as current states with the next unused address, the
  registry \<^verbatim>\<open>listHead\<close>/\<^verbatim>\<open>listTail\<close>, the clock value \<^verbatim>\<open>now\<close> that \<^verbatim>\<open>Tweenable.now()\<close>
  returns, the tables \<^verbatim>\<open>formulas\<close> and \<^verbatim>\<open>Tweenable.filters\<close>, and the event log.
\<close>

record world =
  tweens :: "nat \<Rightarrow> tweenable"
  objs :: "nat \<Rightarrow> state"
  nextObj :: nat
  listHead :: "nat option"
  listTail :: "nat option"
  now :: rat
  formulaTable :: formulas
  tweenableFilters :: "(string \<times> tfilter) list"
  events :: "event list"

text \<open>
  An operation ends normally or by throwing; either way the mutations made so far
  stay in the world.
\<close>

datatype outcome = Done (world_of: world) | Threw error (world_of: world)

definition andThen :: "outcome \<Rightarrow> (world \<Rightarrow> outcome) \<Rightarrow> outcome" where
  "andThen r f = (case r of Done w \<Rightarrow> f w | Threw e w \<Rightarrow> Threw e w)"

definition upd :: "nat \<Rightarrow> (tweenable \<Rightarrow> tweenable) \<Rightarrow> world \<Rightarrow> world" where
  "upd i f w = w\<lparr>tweens := (tweens w)(i := f (tweens w i))\<rparr>"

definition emit :: "event \<Rightarrow> world \<Rightarrow> world" where
  "emit e w = w\<lparr>events := events w @ [e]\<rparr>"

definition currentStateOf :: "nat \<Rightarrow> world \<Rightarrow> state" where
  "currentStateOf i w = objs w (t_currentState (tweens w i))"

definition writeCurrentState :: "nat \<Rightarrow> state \<Rightarrow> world \<Rightarrow> world" where
  "writeCurrentState i s w = w\<lparr>objs := (objs w)(t_currentState (tweens w i) := s)\<rparr>"

text \<open>The field initialisers of the constructor, for the object given as initial state.\<close>

definition newTweenable :: "nat \<Rightarrow> tweenable" where
  "newTweenable initialState =
     \<lparr>t_config = emptyConfig, t_data = EmptyData, t_delay = 0, t_filters = [],
      t_next = None, t_previous = None, t_timestamp = None, t_resolve = None,
      t_reject = None, t_currentState = initialState, t_originalState = [],
      t_targetState = [], t_start = None, t_render = None, t_duration = None,
      t_easing = None, t_isPlaying = False, t_pausedAtTime = None\<rparr>"

section \<open>The registry\<close>

text \<open>
  \<^verbatim>\<open>remove\<close>. In the third branch a missing neighbour is the TypeError of assigning
  to a property of \<^verbatim>\<open>null\<close>.
\<close>

definition remove_tw :: "nat \<Rightarrow> world \<Rightarrow> outcome" where
  "remove_tw i w =
     (let tween = tweens w i;
          clean = upd i (\<lambda>t. t\<lparr>t_previous := None, t_next := None\<rparr>)
      in if listHead w = Some i then
           (let w1 = w\<lparr>listHead := t_next tween\<rparr>
            in case listHead w1 of
                 Some h \<Rightarrow> Done (clean (upd h (\<lambda>t. t\<lparr>t_previous := None\<rparr>) w1))
               | None \<Rightarrow> Done (clean (w1\<lparr>listTail := None\<rparr>)))
         else if listTail w = Some i then
           (let w1 = w\<lparr>listTail := t_previous tween\<rparr>
            in case listTail w1 of
                 Some l \<Rightarrow> Done (clean (upd l (\<lambda>t. t\<lparr>t_next := None\<rparr>) w1))
               | None \<Rightarrow> Done (clean (w1\<lparr>listHead := None\<rparr>)))
         else
           (case t_previous tween of
              None \<Rightarrow> Threw TypeError w
            | Some previousTween \<Rightarrow>
                (let nextTween = t_next tween;
                     w1 = upd previousTween (\<lambda>t. t\<lparr>t_next := nextTween\<rparr>) w
                 in case nextTween of
                      None \<Rightarrow> Threw TypeError w1
                    | Some n \<Rightarrow>
                        Done (clean (upd n (\<lambda>t. t\<lparr>t_previous := Some previousTween\<rparr>) w1)))))"

text \<open>
  The tail insertion at the end of \<^verbatim>\<open>_resume\<close>. With a head but no tail the assignment
  \<^verbatim>\<open>listTail._next = this\<close> throws.
\<close>

definition insert_tw :: "nat \<Rightarrow> world \<Rightarrow> outcome" where
  "insert_tw i w =
     (if listHead w = None then Done (w\<lparr>listHead := Some i, listTail := Some i\<rparr>)
      else
        (let w1 = upd i (\<lambda>t. t\<lparr>t_previous := listTail w\<rparr>) w
         in case listTail w1 of
              None \<Rightarrow> Threw TypeError w1
            | Some l \<Rightarrow> Done ((upd l (\<lambda>t. t\<lparr>t_next := Some i\<rparr>) w1)\<lparr>listTail := Some i\<rparr>)))"

section \<open>Filters and configuration\<close>

definition viewOf :: "nat \<Rightarrow> world \<Rightarrow> tview" where
  "viewOf i w =
     \<lparr>v_currentState = currentStateOf i w,
      v_originalState = t_originalState (tweens w i),
      v_targetState = t_targetState (tweens w i),
      v_easing = t_easing (tweens w i)\<rparr>"

definition writeView :: "nat \<Rightarrow> tview \<Rightarrow> world \<Rightarrow> world" where
  "writeView i v w =
     writeCurrentState i (v_currentState v)
       (upd i (\<lambda>t. t\<lparr>t_originalState := v_originalState v,
                     t_targetState := v_targetState v,
                     t_easing := v_easing v\<rparr>) w)"

text \<open>The call \<^verbatim>\<open>filter(this)\<close> of one hook.\<close>

definition callHook :: "tfilter \<Rightarrow> hookName \<Rightarrow> (tview \<Rightarrow> tview) \<Rightarrow> nat \<Rightarrow> world \<Rightarrow> world" where
  "callHook filterType filterName f i w =
     writeView i (f (viewOf i w)) (emit (Hook (f_name filterType) filterName) w)"

text \<open>
  \<^verbatim>\<open>_applyFilter\<close>: the loop \<^verbatim>\<open>for (let i = this._filters.length; i > 0; i--)\<close>, with the
  loop variable as the first argument, reading \<^verbatim>\<open>this._filters[i - i]\<close> as the source
  does. The loop starts at the length of the list, so the index read is in range.
\<close>

fun applyFilter_loop :: "nat \<Rightarrow> hookName \<Rightarrow> nat \<Rightarrow> world \<Rightarrow> world" where
  "applyFilter_loop 0 filterName this w = w"
| "applyFilter_loop (Suc n) filterName this w =
     (let i = Suc n;
          filterType = t_filters (tweens w this) ! (i - i)
      in applyFilter_loop n filterName this
           (case hook filterType filterName of
              None \<Rightarrow> w
            | Some f \<Rightarrow> callHook filterType filterName f this w))"

definition applyFilter :: "hookName \<Rightarrow> nat \<Rightarrow> world \<Rightarrow> world" where
  "applyFilter filterName this w =
     applyFilter_loop (length (t_filters (tweens w this))) filterName this w"

text \<open>
  \<^verbatim>\<open>composeEasingObject\<close>. Only a string can name an entry of \<^verbatim>\<open>formulas\<close>. The third
  argument is the previous \<^verbatim>\<open>_easing\<close>: when that is a function, the properties are set
  on the function object, which is returned and still callable.
\<close>

definition composeEasingObject ::
  "formulas \<Rightarrow> state \<Rightarrow> easingSpec option \<Rightarrow> easing option \<Rightarrow> easing" where
  "composeEasingObject fm fromTweenParams easingArg composedEasing =
     (let easing = (case easingArg of None \<Rightarrow> EName DEFAULT_EASING | Some e \<Rightarrow> e);
          known = (case easing of EName n \<Rightarrow> fm n | _ \<Rightarrow> None)
      in case known of
           Some f \<Rightarrow> Single f
         | None \<Rightarrow>
             (let item = (\<lambda>prop.
                    case easing of
                      EName n \<Rightarrow> Named n
                    | EFunc f \<Rightarrow> Func f
                    | EMap m \<Rightarrow>
                        (case map_of m prop of
                           None \<Rightarrow> Named DEFAULT_EASING
                         | Some (Named n) \<Rightarrow> if n = [] then Named DEFAULT_EASING else Named n
                         | Some (Func f) \<Rightarrow> Func f));
                  assign = fold (\<lambda>prop. AList.update prop (item prop)) (map fst fromTweenParams)
              in case composedEasing of
                   None \<Rightarrow> PerProperty (assign [])
                 | Some (PerProperty m) \<Rightarrow> PerProperty (assign m)
                 | Some (Single g) \<Rightarrow> Single g))"

text \<open>\<^verbatim>\<open>for (const key in config) _config[key] = config[key]\<close>\<close>

definition orElse :: "'a option \<Rightarrow> 'a option \<Rightarrow> 'a option" where
  "orElse a b = (case a of Some x \<Rightarrow> Some x | None \<Rightarrow> b)"

definition mergeConfig :: "tweenConfig \<Rightarrow> tweenConfig \<Rightarrow> tweenConfig" where
  "mergeConfig old config =
     \<lparr>c_from = orElse (c_from config) (c_from old),
      c_to = orElse (c_to config) (c_to old),
      c_duration = orElse (c_duration config) (c_duration old),
      c_delay = orElse (c_delay config) (c_delay old),
      c_easing = orElse (c_easing config) (c_easing old),
      c_start = orElse (c_start config) (c_start old),
      c_render = orElse (c_render config) (c_render old),
      c_step = orElse (c_step config) (c_step old),
      c_finish = orElse (c_finish config) (c_finish old),
      c_data = orElse (c_data config) (c_data old),
      c_attachment = orElse (c_attachment config) (c_attachment old)\<rparr>"

text \<open>
  \<^verbatim>\<open>setConfig\<close>. The promise constructor option is left out. \<^verbatim>\<open>x || y\<close> on a number
  takes \<^verbatim>\<open>y\<close> for zero as for an absent option.
\<close>

definition setConfig :: "tweenConfig \<Rightarrow> nat \<Rightarrow> world \<Rightarrow> world" where
  "setConfig config this w =
     (let cfg = mergeConfig (t_config (tweens w this)) config;
          render = orElse (c_render cfg) (c_step cfg);
          w1 = upd this (\<lambda>t. t\<lparr>
                 t_config := cfg,
                 t_data := (case orElse (c_data cfg) (c_attachment cfg) of
                              Some d \<Rightarrow> d | None \<Rightarrow> t_data t),
                 t_isPlaying := False,
                 t_pausedAtTime := None,
                 t_delay := (case c_delay config of Some d \<Rightarrow> d | None \<Rightarrow> 0),
                 t_start := c_start cfg,
                 t_render := render,
                 t_duration := Some (case c_duration cfg of
                                       None \<Rightarrow> DEFAULT_DURATION
                                     | Some d \<Rightarrow> if d = 0 then DEFAULT_DURATION else d),
                 t_resolve := orElse (c_finish cfg) (t_resolve t)\<rparr>) w;
          from = (case c_from config of None \<Rightarrow> [] | Some f \<Rightarrow> f);
          to = (case c_to config of None \<Rightarrow> [] | Some t \<Rightarrow> t);
          currentState = fold (\<lambda>(key, v). AList.update key v) from (currentStateOf this w1);
          w2 = writeCurrentState this currentState w1;
          anyPropsAreStrings = list_ex (\<lambda>(key, currentProp). isString currentProp) currentState;
          w3 = upd this (\<lambda>t. t\<lparr>
                 t_originalState :=
                   fold (\<lambda>(key, currentProp). AList.update key currentProp) currentState
                     (t_originalState t),
                 t_targetState :=
                   fold (\<lambda>(key, currentProp). AList.update key
                           (case map_of to key of Some v \<Rightarrow> v | None \<Rightarrow> currentProp))
                     currentState (t_targetState t)\<rparr>) w2;
          w4 = upd this (\<lambda>t. t\<lparr>
                 t_easing := Some (composeEasingObject (formulaTable w3) (currentStateOf this w3)
                                     (c_easing cfg) (t_easing t))\<rparr>) w3;
          w5 = upd this (\<lambda>t. t\<lparr>t_filters := []\<rparr>) w4
      in if anyPropsAreStrings then
           applyFilter TWEEN_CREATED this
             (fold (\<lambda>(key, f) w'.
                      if doesApply f (viewOf this w')
                      then upd this (\<lambda>t. t\<lparr>t_filters := t_filters t @ [f]\<rparr>) w'
                      else w')
                (tweenableFilters w5) w5)
         else w5)"

text \<open>
  The constructor: a fresh object \<open>this\<close> with the initial state object at
  \<open>initialState\<close>, configured when a configuration is given.
\<close>

definition Tweenable :: "nat \<Rightarrow> tweenConfig option \<Rightarrow> nat \<Rightarrow> world \<Rightarrow> world" where
  "Tweenable initialState config this w =
     (let w1 = w\<lparr>tweens := (tweens w)(this := newTweenable initialState)\<rparr>
      in case config of None \<Rightarrow> w1 | Some c \<Rightarrow> setConfig c this w1)"

section \<open>The lifecycle controller and the update driver\<close>

text \<open>
  \<^verbatim>\<open>get\<close>: the object literal \<^verbatim>\<open>{ ...this._currentState }\<close> is a new object, at the
  next unused address, holding the properties of the current state. The result is its
  address.
\<close>

definition get :: "nat \<Rightarrow> world \<Rightarrow> nat \<times> world" where
  "get this w =
     (let a = nextObj w
      in (a, w\<lparr>objs := (objs w)(a := currentStateOf this w), nextObj := Suc a\<rparr>))"

text \<open>\<^verbatim>\<open>set\<close>\<close>

definition set_state :: "nat \<Rightarrow> nat \<Rightarrow> world \<Rightarrow> world" where
  "set_state state this w = upd this (\<lambda>t. t\<lparr>t_currentState := state\<rparr>) w"

text \<open>
  \<^verbatim>\<open>then\<close>, as far as the tweenable goes: the executor of the new promise stores the
  promise's two resolving functions.
\<close>

definition then_tw :: "nat \<Rightarrow> nat \<Rightarrow> nat \<Rightarrow> world \<Rightarrow> world" where
  "then_tw resolve reject this w =
     upd this (\<lambda>t. t\<lparr>t_resolve := Some resolve, t_reject := Some reject\<rparr>) w"

definition callStart :: "nat \<Rightarrow> world \<Rightarrow> world" where
  "callStart this w =
     (let (a, w1) = get this w
      in case t_start (tweens w1 this) of
           None \<Rightarrow> w1
         | Some cb \<Rightarrow> emit (Start cb (objs w1 a) (t_data (tweens w1 this))) w1)"

definition callRender :: "nat \<Rightarrow> state \<Rightarrow> rat option \<Rightarrow> world \<Rightarrow> world" where
  "callRender this st offset w =
     (case t_render (tweens w this) of
        None \<Rightarrow> w
      | Some cb \<Rightarrow> emit (Render cb st (t_data (tweens w this)) offset) w)"

text \<open>
  A call of \<^verbatim>\<open>tweenProps\<close> on the states and easing of \<open>this\<close>; the current state
  object is mutated in place.
\<close>

definition runTweenProps :: "nat \<Rightarrow> rat \<Rightarrow> rat option \<Rightarrow> rat \<Rightarrow> world \<Rightarrow> outcome" where
  "runTweenProps this forPosition duration timestamp w =
     (let tween = tweens w this;
          r = tweenProps (formulaTable w) forPosition (currentStateOf this w)
                (t_originalState tween) (t_targetState tween) duration timestamp
                (t_easing tween);
          w1 = writeCurrentState this (r_state r) w
      in case r_error r of None \<Rightarrow> Done w1 | Some e \<Rightarrow> Threw e w1)"

text \<open>\<^verbatim>\<open>pause\<close>\<close>

definition pause :: "nat \<Rightarrow> world \<Rightarrow> outcome" where
  "pause this w =
     (if \<not> t_isPlaying (tweens w this) then Done w
      else remove_tw this
             (upd this (\<lambda>t. t\<lparr>t_pausedAtTime := Some (now w), t_isPlaying := False\<rparr>) w))"

text \<open>\<^verbatim>\<open>stop\<close>\<close>

definition stop :: "bool \<Rightarrow> nat \<Rightarrow> world \<Rightarrow> outcome" where
  "stop gotoEnd this w =
     (if \<not> t_isPlaying (tweens w this) then Done w
      else
        andThen (remove_tw this (upd this (\<lambda>t. t\<lparr>t_isPlaying := False\<rparr>) w)) (\<lambda>w1.
        (let hasFilters = length (t_filters (tweens w1 this)) > 0
         in andThen
              (if gotoEnd then
                 andThen
                   (runTweenProps this 1 (Some 1) 0
                      (if hasFilters then applyFilter BEFORE_TWEEN this w1 else w1))
                   (\<lambda>w2. Done (if hasFilters
                                then applyFilter AFTER_TWEEN_END this
                                       (applyFilter AFTER_TWEEN this w2)
                                else w2))
               else Done w1)
              (\<lambda>w3. Done
                 (upd this (\<lambda>t. t\<lparr>t_resolve := None, t_reject := None\<rparr>)
                    (case t_resolve (tweens w3 this) of
                       None \<Rightarrow> w3
                     | Some resolve \<Rightarrow>
                         emit (Resolve resolve (t_data (tweens w3 this))
                                 (currentStateOf this w3) this) w3))))))"

text \<open>\<^verbatim>\<open>cancel\<close>\<close>

definition cancel :: "bool \<Rightarrow> nat \<Rightarrow> world \<Rightarrow> outcome" where
  "cancel gotoEnd this w =
     (if \<not> t_isPlaying (tweens w this) then Done w
      else
        stop gotoEnd this
          (upd this (\<lambda>t. t\<lparr>t_resolve := None, t_reject := None\<rparr>)
             (case t_reject (tweens w this) of
                None \<Rightarrow> w
              | Some reject \<Rightarrow>
                  emit (Reject reject (t_data (tweens w this)) (currentStateOf this w) this) w)))"

text \<open>
  \<^verbatim>\<open>tween\<close> and \<^verbatim>\<open>_resume\<close> call each other: \<^verbatim>\<open>_resume\<close> starts a tweenable whose
  timestamp is \<^verbatim>\<open>null\<close>, and \<^verbatim>\<open>tween\<close> ends in \<^verbatim>\<open>_resume(this._timestamp)\<close> having set
  the timestamp. The test \<^verbatim>\<open>config || !this._config\<close> is the test of \<^verbatim>\<open>config\<close>, since
  \<^verbatim>\<open>_config\<close> is always an object.
\<close>

function tween :: "tweenConfig option \<Rightarrow> nat \<Rightarrow> world \<Rightarrow> outcome"
  and resume_internal :: "rat \<Rightarrow> nat \<Rightarrow> world \<Rightarrow> outcome" where
  "tween config this w =
     (case (if t_isPlaying (tweens w this) then stop False this w else Done w) of
        Threw e w' \<Rightarrow> Threw e w'
      | Done w1 \<Rightarrow>
          (let w2 = (case config of None \<Rightarrow> w1 | Some c \<Rightarrow> setConfig c this w1);
               w3 = upd this (\<lambda>t. t\<lparr>t_pausedAtTime := None, t_timestamp := Some (now w2)\<rparr>) w2;
               w4 = callStart this w3;
               w5 = (if t_delay (tweens w4 this) \<noteq> 0
                     then callRender this (currentStateOf this w4) (Some 0) w4
                     else w4)
           in resume_internal (now w2) this w5))"
| "resume_internal currentTime this w =
     (if t_timestamp (tweens w this) = None then tween None this w
      else if t_isPlaying (tweens w this) then Done w
      else
        (let w1 = (case t_pausedAtTime (tweens w this) of
                     None \<Rightarrow> w
                   | Some pausedAtTime \<Rightarrow>
                       if pausedAtTime = 0 then w
                       else upd this (\<lambda>t. t\<lparr>
                              t_timestamp := map_option (\<lambda>ts. ts + (currentTime - pausedAtTime))
                                               (t_timestamp t),
                              t_pausedAtTime := None\<rparr>) w)
         in insert_tw this (upd this (\<lambda>t. t\<lparr>t_isPlaying := True\<rparr>) w1)))"
  by pat_completeness auto

termination tween
  apply (relation "measure (\<lambda>x. case x of
                              Inl (config, this, w) \<Rightarrow> 1
                            | Inr (currentTime, this, w) \<Rightarrow>
                                if t_timestamp (tweens w this) = None then 2 else 0)")
    apply simp
   apply (simp add: callStart_def callRender_def get_def emit_def upd_def Let_def
                split: option.splits)
  apply simp
  done

declare tween.simps [simp del]
declare resume_internal.simps [simp del]

text \<open>\<^verbatim>\<open>resume\<close>: the default argument of \<^verbatim>\<open>_resume\<close> is \<^verbatim>\<open>Tweenable.now()\<close>.\<close>

definition resume :: "nat \<Rightarrow> world \<Rightarrow> outcome" where
  "resume this w = resume_internal (now w) this w"

text \<open>
  \<^verbatim>\<open>processTween\<close>. In arithmetic \<^verbatim>\<open>null\<close> counts as zero. With an \<^verbatim>\<open>undefined\<close>
  duration the end time and the offset are NaN, so every comparison with the end time
  is false.
\<close>

definition processTween :: "nat \<Rightarrow> rat \<Rightarrow> world \<Rightarrow> outcome" where
  "processTween this currentTime w =
     (let tween = tweens w this;
          timestamp = (case t_timestamp tween of None \<Rightarrow> 0 | Some ts \<Rightarrow> ts);
          delay = t_delay tween;
          hasFilters = length (t_filters tween) > 0
      in if currentTime < timestamp + delay then Done w
         else
           (case t_duration tween of
              None \<Rightarrow>
                andThen
                  (runTweenProps this currentTime None (timestamp + delay)
                     (if hasFilters then applyFilter BEFORE_TWEEN this w else w))
                  (\<lambda>w2. let w3 = (if hasFilters then applyFilter AFTER_TWEEN this w2 else w2)
                         in Done (callRender this (currentStateOf this w3) None w3))
            | Some duration \<Rightarrow>
                (let endTime = timestamp + delay + duration;
                     timeToCompute = (if currentTime > endTime then endTime else currentTime);
                     hasEnded = (timeToCompute \<ge> endTime);
                     offset = duration - (endTime - timeToCompute)
                 in if hasEnded then
                      stop True this (callRender this (t_targetState tween) (Some offset) w)
                    else
                      (let w1 = (if hasFilters then applyFilter BEFORE_TWEEN this w else w);
                           (timestamp', duration', timeToCompute') =
                             (if timeToCompute < timestamp + delay then (1, 1, 1)
                              else (timestamp + delay, duration, timeToCompute))
                       in andThen
                            (runTweenProps this timeToCompute' (Some duration') timestamp' w1)
                            (\<lambda>w2. let w3 = (if hasFilters then applyFilter AFTER_TWEEN this w2
                                             else w2)
                                   in Done (callRender this (currentStateOf this w3)
                                              (Some offset) w3))))))"

text \<open>\<^verbatim>\<open>seek\<close>\<close>

definition seek :: "rat \<Rightarrow> nat \<Rightarrow> world \<Rightarrow> outcome" where
  "seek millisecond this w =
     (let millisecond' = max millisecond 0;
          currentTime = now w
      in if (case t_timestamp (tweens w this) of None \<Rightarrow> 0 | Some ts \<Rightarrow> ts) + millisecond' = 0
         then Done w
         else processTween this currentTime
                (upd this (\<lambda>t. t\<lparr>t_timestamp := Some (currentTime - millisecond')\<rparr>) w))"

section \<open>Sequences of calls\<close>

text \<open>
  The clock: \<^verbatim>\<open>scheduleUpdate\<close> stores the current time in \<^verbatim>\<open>now\<close>, and a host may
  replace \<^verbatim>\<open>Tweenable.now\<close>; either way later calls read another value.
\<close>

definition setNow :: "rat \<Rightarrow> world \<Rightarrow> world" where
  "setNow t w = w\<lparr>now := t\<rparr>"

text \<open>
  A module freshly loaded: no tweenable is registered, and every \<^verbatim>\<open>Tweenable\<close> object is
  as its constructor leaves it, with the initial state object found at \<open>addr i\<close>.
\<close>

definition initialWorld ::
  "(nat \<Rightarrow> nat) \<Rightarrow> (nat \<Rightarrow> state) \<Rightarrow> nat \<Rightarrow> rat \<Rightarrow> formulas \<Rightarrow> (string \<times> tfilter) list \<Rightarrow> world"
  where
  "initialWorld addr store free clock fm fl =
     \<lparr>tweens = (\<lambda>i. newTweenable (addr i)), objs = store, nextObj = free,
      listHead = None, listTail = None, now = clock, formulaTable = fm,
      tweenableFilters = fl, events = []\<rparr>"

text \<open>
  The calls a program makes on tweenables, with the passing of time between them. A
  caller may catch what a call throws and go on: \<open>run\<close> continues from the world the
  call left.
\<close>

datatype call =
    Play nat "tweenConfig option"
  | Pause nat
  | Resume nat
  | Stop nat bool
  | Cancel nat bool
  | Seek nat rat
  | Then nat nat nat
  | Clock rat

fun perform :: "call \<Rightarrow> world \<Rightarrow> outcome" where
  "perform (Play this config) w = tween config this w"
| "perform (Pause this) w = pause this w"
| "perform (Resume this) w = resume this w"
| "perform (Stop this gotoEnd) w = stop gotoEnd this w"
| "perform (Cancel this gotoEnd) w = cancel gotoEnd this w"
| "perform (Seek this millisecond) w = seek millisecond this w"
| "perform (Then this resolve reject) w = Done (then_tw resolve reject this w)"
| "perform (Clock t) w = Done (setNow t w)"

fun run :: "call list \<Rightarrow> world \<Rightarrow> world" where
  "run [] w = w"
| "run (c # cs) w = run cs (world_of (perform c w))"

section \<open>Notions used by the properties\<close>

text \<open>The fields of a tweenable that no filter hook and no interpolation touches.\<close>

definition ctl :: "tweenable \<Rightarrow> tweenable" where
  "ctl t = t\<lparr>t_originalState := [], t_targetState := [], t_easing := None\<rparr>"

text \<open>A tweenable without its registry links.\<close>

definition unlinked :: "tweenable \<Rightarrow> tweenable" where
  "unlinked t = t\<lparr>t_next := None, t_previous := None\<rparr>"

text \<open>The calls of completion continuations in an event log.\<close>

fun isCompletion :: "event \<Rightarrow> bool" where
  "isCompletion (Resolve c d s t) = True"
| "isCompletion (Reject c d s t) = True"
| "isCompletion e = False"

definition completions :: "event list \<Rightarrow> event list" where
  "completions evs = filter isCompletion evs"

text \<open>
  The traversals of the registry: from a node along \<^verbatim>\<open>_next\<close>, respectively
  \<^verbatim>\<open>_previous\<close>, until \<^verbatim>\<open>null\<close>, collecting the nodes visited. On a cyclic chain the
  traversal does not end, and has no result.
\<close>

partial_function (option) walk_next :: "(nat \<Rightarrow> tweenable) \<Rightarrow> nat option \<Rightarrow> nat list option" where
  "walk_next h p =
     (case p of
        None \<Rightarrow> Some []
      | Some i \<Rightarrow> Option.bind (walk_next h (t_next (h i))) (\<lambda>rest. Some (i # rest)))"

partial_function (option) walk_previous :: "(nat \<Rightarrow> tweenable) \<Rightarrow> nat option \<Rightarrow> nat list option" where
  "walk_previous h p =
     (case p of
        None \<Rightarrow> Some []
      | Some i \<Rightarrow> Option.bind (walk_previous h (t_previous (h i))) (\<lambda>rest. Some (i # rest)))"

text \<open>A node can be reached from \<open>p\<close> by following \<^verbatim>\<open>_next\<close> pointers.\<close>

inductive reachable_next :: "(nat \<Rightarrow> tweenable) \<Rightarrow> nat option \<Rightarrow> nat \<Rightarrow> bool" where
  here: "reachable_next h (Some i) i"
| step: "reachable_next h (t_next (h i)) j \<Longrightarrow> reachable_next h (Some i) j"

text \<open>
  The successor and the predecessor of a node in a list of nodes, and the two ends of
  such a list.
\<close>

fun succ_in :: "nat list \<Rightarrow> nat \<Rightarrow> nat option" where
  "succ_in (y # z # zs) x = (if x = y then Some z else succ_in (z # zs) x)"
| "succ_in ys x = None"

definition pred_in :: "nat list \<Rightarrow> nat \<Rightarrow> nat option" where
  "pred_in xs x = succ_in (rev xs) x"

fun first_of :: "nat list \<Rightarrow> nat option" where
  "first_of [] = None"
| "first_of (x # xs) = Some x"

definition last_of :: "nat list \<Rightarrow> nat option" where
  "last_of xs = first_of (rev xs)"

text \<open>
  The registry holds exactly the nodes \<open>xs\<close>, in this order: head and tail are the ends
  of \<open>xs\<close>, the links of every tweenable are its neighbours in \<open>xs\<close>, and a tweenable
  outside \<open>xs\<close> has no links.
\<close>

definition registry_is :: "world \<Rightarrow> nat list \<Rightarrow> bool" where
  "registry_is w xs \<longleftrightarrow>
     distinct xs \<and>
     listHead w = first_of xs \<and>
     listTail w = last_of xs \<and>
     (\<forall>j. t_next (tweens w j) = succ_in xs j \<and> t_previous (tweens w j) = pred_in xs j)"

text \<open>The registry is a well-formed list of exactly the playing tweenables.\<close>

definition registry_ok :: "world \<Rightarrow> bool" where
  "registry_ok w \<longleftrightarrow>
     (\<exists>xs. registry_is w xs \<and> (\<forall>j. j \<in> set xs \<longleftrightarrow> t_isPlaying (tweens w j)))"

text \<open>What the registry invariant looks at: head, tail, and the links and playing flag of
  every tweenable.\<close>

definition registry_part ::
  "world \<Rightarrow> nat option \<times> nat option \<times> (nat \<Rightarrow> nat option \<times> nat option \<times> bool)" where
  "registry_part w =
     (listHead w, listTail w,
      \<lambda>j. (t_next (tweens w j), t_previous (tweens w j), t_isPlaying (tweens w j)))"

text \<open>
  The two halves of \<^verbatim>\<open>stop\<close> that follow the removal from the registry, named so that
  properties of \<^verbatim>\<open>stop\<close> can be stated step by step: the block under \<^verbatim>\<open>if (gotoEnd)\<close>,
  and the call of the pending \<^verbatim>\<open>_resolve\<close> with the clearing of both continuations.
\<close>

definition gotoEnd_steps :: "bool \<Rightarrow> nat \<Rightarrow> world \<Rightarrow> outcome" where
  "gotoEnd_steps gotoEnd this w1 =
     (if gotoEnd then
        andThen
          (runTweenProps this 1 (Some 1) 0
             (if length (t_filters (tweens w1 this)) > 0
              then applyFilter BEFORE_TWEEN this w1 else w1))
          (\<lambda>w2. Done (if length (t_filters (tweens w1 this)) > 0
                       then applyFilter AFTER_TWEEN_END this (applyFilter AFTER_TWEEN this w2)
                       else w2))
      else Done w1)"

definition resolve_and_clear :: "nat \<Rightarrow> world \<Rightarrow> world" where
  "resolve_and_clear this w3 =
     upd this (\<lambda>t. t\<lparr>t_resolve := None, t_reject := None\<rparr>)
       (case t_resolve (tweens w3 this) of
          None \<Rightarrow> w3
        | Some resolve \<Rightarrow>
            emit (Resolve resolve (t_data (tweens w3 this)) (currentStateOf this w3) this) w3)"

section \<open>Auxiliary facts\<close>

subsection \<open>The interpolation loop\<close>

lemma map_of_fold_update:
  "map_of (fold (\<lambda>key. AList.update key (F key)) keys cur) k =
     (if k \<in> set keys then Some (F k) else map_of cur k)"
  by (induction keys arbitrary: cur) (auto simp: update_conv')

lemma keys_fold_update:
  "set keys \<subseteq> set (map fst cur) \<Longrightarrow>
   map fst (fold (\<lambda>key. AList.update key (F key)) keys cur) = map fst cur"
proof (induction keys arbitrary: cur)
  case Nil
  then show ?case by simp
next
  case (Cons key keys)
  have eq: "map fst (AList.update key (F key) cur) = map fst cur"
    using Cons.prems by (simp add: update_keys)
  have "set keys \<subseteq> set (map fst (AList.update key (F key) cur))"
    using Cons.prems by (simp only: eq) simp
  from Cons.IH [OF this] eq show ?case by simp
qed

lemma tweenProps_loop_oneEase:
  "tweenProps_loop fm np e (Some ep) orig targ keys cur n =
     \<lparr>r_state = fold (\<lambda>key. AList.update key (interpolate (map_of orig key) (map_of targ key) ep)) keys cur,
      r_easingCalls = n, r_error = None\<rparr>"
  by (induction keys arbitrary: cur) simp_all


lemma tweenProps_Single:
  "tweenProps fm t currentState originalState targetState duration timestamp (Some (Single f)) =
     \<lparr>r_state = fold (\<lambda>key. AList.update key
                   (interpolate (map_of originalState key) (map_of targetState key)
                      (map_option f (normalizedPosition t timestamp duration))))
                 (map fst currentState) currentState,
      r_easingCalls = 1, r_error = None\<rparr>"
  by (simp add: tweenProps_def tweenProps_loop_oneEase)

lemma normalizedPosition_Some:
  "duration \<noteq> 0 \<Longrightarrow>
   normalizedPosition t timestamp (Some duration) =
     Some (if t < timestamp then 0 else (t - timestamp) / duration)"
  by (simp add: normalizedPosition_def)

subsection \<open>Projections of the primitive updates\<close>

lemma upd_proj [simp]:
  "tweens (upd i f w) = (tweens w)(i := f (tweens w i))"
  "objs (upd i f w) = objs w"
  "nextObj (upd i f w) = nextObj w"
  "listHead (upd i f w) = listHead w"
  "listTail (upd i f w) = listTail w"
  "now (upd i f w) = now w"
  "formulaTable (upd i f w) = formulaTable w"
  "tweenableFilters (upd i f w) = tweenableFilters w"
  "events (upd i f w) = events w"
  by (simp_all add: upd_def)

lemma emit_proj [simp]:
  "tweens (emit e w) = tweens w"
  "objs (emit e w) = objs w"
  "nextObj (emit e w) = nextObj w"
  "listHead (emit e w) = listHead w"
  "listTail (emit e w) = listTail w"
  "now (emit e w) = now w"
  "formulaTable (emit e w) = formulaTable w"
  "tweenableFilters (emit e w) = tweenableFilters w"
  "events (emit e w) = events w @ [e]"
  by (simp_all add: emit_def)

lemma writeCurrentState_proj [simp]:
  "tweens (writeCurrentState i s w) = tweens w"
  "objs (writeCurrentState i s w) = (objs w)(t_currentState (tweens w i) := s)"
  "nextObj (writeCurrentState i s w) = nextObj w"
  "listHead (writeCurrentState i s w) = listHead w"
  "listTail (writeCurrentState i s w) = listTail w"
  "now (writeCurrentState i s w) = now w"
  "formulaTable (writeCurrentState i s w) = formulaTable w"
  "tweenableFilters (writeCurrentState i s w) = tweenableFilters w"
  "events (writeCurrentState i s w) = events w"
  by (simp_all add: writeCurrentState_def)

lemma andThen_simps [simp]:
  "andThen (Done w) f = f w"
  "andThen (Threw e w) f = Threw e w"
  by (simp_all add: andThen_def)

lemma ctl_fields [simp]:
  "t_config (ctl t) = t_config t"
  "t_data (ctl t) = t_data t"
  "t_delay (ctl t) = t_delay t"
  "t_filters (ctl t) = t_filters t"
  "t_next (ctl t) = t_next t"
  "t_previous (ctl t) = t_previous t"
  "t_timestamp (ctl t) = t_timestamp t"
  "t_resolve (ctl t) = t_resolve t"
  "t_reject (ctl t) = t_reject t"
  "t_currentState (ctl t) = t_currentState t"
  "t_start (ctl t) = t_start t"
  "t_render (ctl t) = t_render t"
  "t_duration (ctl t) = t_duration t"
  "t_isPlaying (ctl t) = t_isPlaying t"
  "t_pausedAtTime (ctl t) = t_pausedAtTime t"
  by (simp_all add: ctl_def)

lemma callHook_proj [simp]:
  "ctl (tweens (callHook ft h f i w) j) = ctl (tweens w j)"
  "nextObj (callHook ft h f i w) = nextObj w"
  "listHead (callHook ft h f i w) = listHead w"
  "listTail (callHook ft h f i w) = listTail w"
  "now (callHook ft h f i w) = now w"
  "formulaTable (callHook ft h f i w) = formulaTable w"
  "tweenableFilters (callHook ft h f i w) = tweenableFilters w"
  "events (callHook ft h f i w) = events w @ [Hook (f_name ft) h]"
  by (simp_all add: callHook_def writeView_def ctl_def)

lemma applyFilter_loop_proj [simp]:
  "ctl (tweens (applyFilter_loop n h i w) j) = ctl (tweens w j)"
  "nextObj (applyFilter_loop n h i w) = nextObj w"
  "listHead (applyFilter_loop n h i w) = listHead w"
  "listTail (applyFilter_loop n h i w) = listTail w"
  "now (applyFilter_loop n h i w) = now w"
  "formulaTable (applyFilter_loop n h i w) = formulaTable w"
  "tweenableFilters (applyFilter_loop n h i w) = tweenableFilters w"
  by (induction n arbitrary: w; simp add: Let_def split: option.split)+

lemma applyFilter_proj [simp]:
  "ctl (tweens (applyFilter h i w) j) = ctl (tweens w j)"
  "nextObj (applyFilter h i w) = nextObj w"
  "listHead (applyFilter h i w) = listHead w"
  "listTail (applyFilter h i w) = listTail w"
  "now (applyFilter h i w) = now w"
  "formulaTable (applyFilter h i w) = formulaTable w"
  "tweenableFilters (applyFilter h i w) = tweenableFilters w"
  by (simp_all add: applyFilter_def)

subsection \<open>Neighbours in a list of nodes\<close>

lemma last_of_simps [simp]:
  "last_of [] = None"
  "last_of (xs @ [x]) = Some x"
  by (simp_all add: last_of_def)

lemma last_of_Cons: "last_of (x # xs) = (if xs = [] then Some x else last_of xs)"
  by (cases xs rule: rev_cases) (simp_all add: last_of_def)

lemma first_of_append: "first_of (xs @ ys) = (if xs = [] then first_of ys else first_of xs)"
  by (cases xs) simp_all

lemma first_of_in: "first_of xs = Some x \<Longrightarrow> x \<in> set xs"
  by (cases xs) auto

lemma last_of_in: "last_of xs = Some x \<Longrightarrow> x \<in> set xs"
  using first_of_in [of "rev xs" x] by (simp add: last_of_def)

lemma first_of_None [simp]: "first_of xs = None \<longleftrightarrow> xs = []"
  by (cases xs) simp_all

lemma last_of_None [simp]: "last_of xs = None \<longleftrightarrow> xs = []"
  by (simp add: last_of_def)

lemma succ_in_notin: "j \<notin> set xs \<Longrightarrow> succ_in xs j = None"
  by (induction xs j rule: succ_in.induct) auto

lemma succ_in_Cons:
  "succ_in (y # ys) x = (if x = y then first_of ys else succ_in ys x)"
  by (cases ys) (auto simp: succ_in_notin)

lemma succ_in_snoc:
  "x \<notin> set xs \<Longrightarrow> distinct xs \<Longrightarrow>
   succ_in (xs @ [x]) j = (if last_of xs = Some j then Some x else succ_in xs j)"
proof (induction xs)
  case Nil
  then show ?case by simp
next
  case (Cons y ys)
  then show ?case
    by (auto simp: succ_in_Cons last_of_Cons first_of_append succ_in_notin
        dest: last_of_in simp del: succ_in.simps)
qed

lemma succ_in_mid:
  "distinct (ys @ x # zs) \<Longrightarrow> succ_in (ys @ x # zs) x = first_of zs"
  by (induction ys) (auto simp: succ_in_Cons simp del: succ_in.simps)

lemma succ_in_remove:
  "distinct (ys @ x # zs) \<Longrightarrow>
   succ_in (ys @ zs) j =
     (if j = x then None
      else if last_of ys = Some j then first_of zs
      else succ_in (ys @ x # zs) j)"
proof (induction ys)
  case Nil
  then show ?case by (auto simp: succ_in_Cons succ_in_notin simp del: succ_in.simps)
next
  case (Cons y ys)
  then show ?case
    by (auto simp: succ_in_Cons succ_in_notin last_of_Cons first_of_append
        dest: last_of_in simp del: succ_in.simps)
qed

lemma pred_in_notin: "j \<notin> set xs \<Longrightarrow> pred_in xs j = None"
  by (simp add: pred_in_def succ_in_notin)

lemma pred_in_snoc:
  "x \<notin> set xs \<Longrightarrow>
   pred_in (xs @ [x]) j = (if j = x then last_of xs else pred_in xs j)"
  by (simp add: pred_in_def succ_in_Cons last_of_def del: succ_in.simps)

lemma distinct_rev_mid: "distinct (ys @ x # zs) \<Longrightarrow> distinct (rev zs @ x # rev ys)"
  by auto

lemma pred_in_mid:
  "distinct (ys @ x # zs) \<Longrightarrow> pred_in (ys @ x # zs) x = last_of ys"
  using succ_in_mid [OF distinct_rev_mid, of ys x zs]
  by (simp add: pred_in_def last_of_def)

lemma pred_in_remove:
  "distinct (ys @ x # zs) \<Longrightarrow>
   pred_in (ys @ zs) j =
     (if j = x then None
      else if first_of zs = Some j then last_of ys
      else pred_in (ys @ x # zs) j)"
  using succ_in_remove [OF distinct_rev_mid, of ys x zs j]
  by (simp add: pred_in_def last_of_def)

subsection \<open>Links and the registry\<close>

lemma ctl_eqD:
  assumes "ctl a = ctl b"
  shows "t_config a = t_config b" "t_data a = t_data b" "t_delay a = t_delay b"
    "t_filters a = t_filters b" "t_next a = t_next b" "t_previous a = t_previous b"
    "t_timestamp a = t_timestamp b" "t_resolve a = t_resolve b" "t_reject a = t_reject b"
    "t_currentState a = t_currentState b" "t_start a = t_start b" "t_render a = t_render b"
    "t_duration a = t_duration b" "t_isPlaying a = t_isPlaying b"
    "t_pausedAtTime a = t_pausedAtTime b"
  using assms by (metis ctl_fields)+

lemmas applyFilter_fields [simp] = ctl_eqD [OF applyFilter_proj(1)]

lemma unlinked_fields [simp]:
  "t_config (unlinked t) = t_config t"
  "t_data (unlinked t) = t_data t"
  "t_delay (unlinked t) = t_delay t"
  "t_filters (unlinked t) = t_filters t"
  "t_timestamp (unlinked t) = t_timestamp t"
  "t_resolve (unlinked t) = t_resolve t"
  "t_reject (unlinked t) = t_reject t"
  "t_currentState (unlinked t) = t_currentState t"
  "t_originalState (unlinked t) = t_originalState t"
  "t_targetState (unlinked t) = t_targetState t"
  "t_start (unlinked t) = t_start t"
  "t_render (unlinked t) = t_render t"
  "t_duration (unlinked t) = t_duration t"
  "t_easing (unlinked t) = t_easing t"
  "t_isPlaying (unlinked t) = t_isPlaying t"
  "t_pausedAtTime (unlinked t) = t_pausedAtTime t"
  by (simp_all add: unlinked_def)

lemma unlinked_eqD:
  assumes "unlinked a = unlinked b"
  shows "t_config a = t_config b" "t_data a = t_data b" "t_delay a = t_delay b"
    "t_filters a = t_filters b"
    "t_timestamp a = t_timestamp b" "t_resolve a = t_resolve b" "t_reject a = t_reject b"
    "t_currentState a = t_currentState b" "t_originalState a = t_originalState b"
    "t_targetState a = t_targetState b" "t_start a = t_start b" "t_render a = t_render b"
    "t_duration a = t_duration b" "t_easing a = t_easing b" "t_isPlaying a = t_isPlaying b"
    "t_pausedAtTime a = t_pausedAtTime b"
  using assms by (metis unlinked_fields)+

lemma remove_tw_proj [simp]:
  "unlinked (tweens (world_of (remove_tw i w)) j) = unlinked (tweens w j)"
  "objs (world_of (remove_tw i w)) = objs w"
  "nextObj (world_of (remove_tw i w)) = nextObj w"
  "now (world_of (remove_tw i w)) = now w"
  "formulaTable (world_of (remove_tw i w)) = formulaTable w"
  "tweenableFilters (world_of (remove_tw i w)) = tweenableFilters w"
  "events (world_of (remove_tw i w)) = events w"
  by (simp_all add: remove_tw_def Let_def unlinked_def split: option.split)

lemmas remove_tw_fields [simp] = unlinked_eqD [OF remove_tw_proj(1)]

lemma insert_tw_proj [simp]:
  "unlinked (tweens (world_of (insert_tw i w)) j) = unlinked (tweens w j)"
  "objs (world_of (insert_tw i w)) = objs w"
  "nextObj (world_of (insert_tw i w)) = nextObj w"
  "now (world_of (insert_tw i w)) = now w"
  "formulaTable (world_of (insert_tw i w)) = formulaTable w"
  "tweenableFilters (world_of (insert_tw i w)) = tweenableFilters w"
  "events (world_of (insert_tw i w)) = events w"
  by (simp_all add: insert_tw_def Let_def unlinked_def split: option.split)

lemmas insert_tw_fields [simp] = unlinked_eqD [OF insert_tw_proj(1)]

lemma registry_is_upd:
  "(\<And>t. t_next (f t) = t_next t) \<Longrightarrow> (\<And>t. t_previous (f t) = t_previous t) \<Longrightarrow>
   registry_is (upd i f w) xs = registry_is w xs"
proof -
  assume a: "\<And>t. t_next (f t) = t_next t" and b: "\<And>t. t_previous (f t) = t_previous t"
  have "\<And>j. t_next (tweens (upd i f w) j) = t_next (tweens w j)"
    "\<And>j. t_previous (tweens (upd i f w) j) = t_previous (tweens w j)"
    by (simp_all add: a b)
  then show ?thesis
    by (simp only: registry_is_def upd_proj)
qed

lemma registry_is_notin:
  "registry_is w xs \<Longrightarrow> j \<notin> set xs \<Longrightarrow>
   t_next (tweens w j) = None \<and> t_previous (tweens w j) = None"
  by (simp add: registry_is_def succ_in_notin pred_in_notin)

lemma last_of_append: "last_of (xs @ ys) = (if ys = [] then last_of xs else last_of ys)"
  by (simp add: last_of_def first_of_append)

lemma remove_tw_registry:
  assumes reg: "registry_is w xs" and i: "i \<in> set xs"
  shows "\<exists>w'. remove_tw i w = Done w' \<and> registry_is w' (remove1 i xs)"
proof -
  from i obtain ys zs where xs: "xs = ys @ i # zs"
    by (auto simp: in_set_conv_decomp)
  from reg have d: "distinct (ys @ i # zs)"
    by (simp add: registry_is_def xs)
  have r1: "remove1 i xs = ys @ zs"
    using d by (simp add: xs remove1_append)
  have nxt: "\<And>j. t_next (tweens w j) = succ_in (ys @ i # zs) j"
    and prv: "\<And>j. t_previous (tweens w j) = pred_in (ys @ i # zs) j"
    and hd: "listHead w = first_of (ys @ i # zs)"
    and tl: "listTail w = last_of (ys @ i # zs)"
    using reg by (simp_all add: registry_is_def xs)
  have ni: "t_next (tweens w i) = first_of zs" and pi: "t_previous (tweens w i) = last_of ys"
    by (simp_all add: nxt prv succ_in_mid [OF d] pred_in_mid [OF d])
  have d2: "distinct (ys @ zs)" using d by auto
  have fz: "first_of zs \<noteq> Some i" and ly: "last_of ys \<noteq> Some i"
    using d by (auto dest: first_of_in last_of_in)
  have fl: "\<And>a. first_of zs = Some a \<Longrightarrow> last_of ys \<noteq> Some a"
    using d by (auto dest!: first_of_in last_of_in)
  note rm = succ_in_remove [OF d] pred_in_remove [OF d]
  show ?thesis
  proof (cases "ys = []")
    case True
    have h: "listHead w = Some i" by (simp add: hd True)
    have t: "listTail w = (if zs = [] then Some i else last_of zs)"
      by (simp add: tl True last_of_Cons)
    have lz: "last_of (ys @ zs) = last_of zs" "first_of (ys @ zs) = first_of zs"
      "last_of ys = None"
      by (simp_all add: True)
    show ?thesis
      unfolding r1 registry_is_def rm lz nxt [symmetric] prv [symmetric]
      using d2 fz
      by (cases "first_of zs")
         (auto simp: remove_tw_def Let_def h ni t)
  next
    case False
    have h: "first_of ys \<noteq> Some i" "listHead w = first_of ys"
      using d False by (auto simp: hd first_of_append dest: first_of_in)
    from False obtain l where l: "last_of ys = Some l" by (cases "last_of ys") auto
    have li: "l \<noteq> i" using ly l by auto
    show ?thesis
    proof (cases "zs = []")
      case True
      have t: "listTail w = Some i" by (simp add: tl True)
      have lz: "last_of (ys @ zs) = last_of ys" "first_of (ys @ zs) = first_of ys"
        "first_of zs = None"
        by (simp_all add: True)
      show ?thesis
        unfolding r1 registry_is_def rm lz nxt [symmetric] prv [symmetric]
        using d2 li
        by (auto simp: remove_tw_def Let_def h t pi l)
    next
      case zs: False
      then obtain z where z: "first_of zs = Some z" by (cases "first_of zs") auto
      have t: "last_of zs \<noteq> Some i" "listTail w = last_of zs"
        using d zs by (auto simp: tl last_of_append last_of_Cons dest: last_of_in)
      have lz: "last_of (ys @ zs) = last_of zs" "first_of (ys @ zs) = first_of ys"
        using False zs by (simp_all add: last_of_append first_of_append)
      have zi: "z \<noteq> i" "l \<noteq> z" using fz z fl l by auto
      show ?thesis
        unfolding r1 registry_is_def rm lz nxt [symmetric] prv [symmetric]
        using d2 li zi
        by (auto simp: remove_tw_def Let_def h t pi ni l z)
    qed
  qed
qed

lemma insert_tw_registry:
  assumes reg: "registry_is w xs" and i: "i \<notin> set xs"
  shows "\<exists>w'. insert_tw i w = Done w' \<and> registry_is w' (xs @ [i])"
proof -
  from reg have d: "distinct xs"
    and nxt: "\<And>j. t_next (tweens w j) = succ_in xs j"
    and prv: "\<And>j. t_previous (tweens w j) = pred_in xs j"
    and hd: "listHead w = first_of xs"
    and tl: "listTail w = last_of xs"
    by (simp_all add: registry_is_def)
  have ii: "t_next (tweens w i) = None" "t_previous (tweens w i) = None"
    using registry_is_notin [OF reg i] by simp_all
  have li: "last_of xs \<noteq> Some i"
    using i by (auto dest: last_of_in)
  note sn = succ_in_snoc [OF i d] pred_in_snoc [OF i]
  show ?thesis
  proof (cases "xs = []")
    case True
    have e: "listHead w = None" "listTail w = None" "last_of xs = None" "first_of xs = None"
      by (simp_all add: hd tl True)
    show ?thesis
      unfolding registry_is_def sn first_of_append e nxt [symmetric] prv [symmetric]
      using d i True ii
      by (auto simp: insert_tw_def e last_of_Cons)
  next
    case False
    then obtain l where l: "last_of xs = Some l" by (cases "last_of xs") auto
    from False obtain h where h: "first_of xs = Some h" by (cases "first_of xs") auto
    have e: "listHead w = Some h" "listTail w = Some l"
      by (simp_all add: hd tl l h)
    have "l \<noteq> i" using li l by auto
    then show ?thesis
      unfolding registry_is_def sn first_of_append l h nxt [symmetric] prv [symmetric]
      using d i False ii
      by (auto simp: insert_tw_def e Let_def)
  qed
qed

subsection \<open>Traversals of a well-formed registry\<close>

lemma walk_next_suffix:
  "distinct (ys @ zs) \<Longrightarrow> (\<And>j. t_next (h j) = succ_in (ys @ zs) j) \<Longrightarrow>
   walk_next h (first_of zs) = Some zs"
proof (induction zs arbitrary: ys)
  case Nil
  then show ?case by (simp add: walk_next.simps)
next
  case (Cons z zs)
  have "t_next (h z) = first_of zs"
    using Cons.prems succ_in_mid [of ys z zs] by simp
  moreover have "walk_next h (first_of zs) = Some zs"
    using Cons.IH [of "ys @ [z]"] Cons.prems by simp
  ultimately show ?case
    by (subst walk_next.simps) simp
qed

lemma walk_previous_prefix:
  "distinct (ys @ zs) \<Longrightarrow> (\<And>j. t_previous (h j) = pred_in (ys @ zs) j) \<Longrightarrow>
   walk_previous h (last_of ys) = Some (rev ys)"
proof (induction ys arbitrary: zs rule: rev_induct)
  case Nil
  then show ?case by (simp add: walk_previous.simps)
next
  case (snoc y ys)
  have "t_previous (h y) = last_of ys"
    using snoc.prems pred_in_mid [of ys y zs] by simp
  moreover have "walk_previous h (last_of ys) = Some (rev ys)"
    using snoc.IH [of "y # zs"] snoc.prems by simp
  ultimately show ?case
    by (subst walk_previous.simps) simp
qed

lemma registry_is_walk:
  assumes "registry_is w xs"
  shows "walk_next (tweens w) (listHead w) = Some xs"
    and "walk_previous (tweens w) (listTail w) = Some (rev xs)"
  using assms walk_next_suffix [of "[]" xs "tweens w"] walk_previous_prefix [of xs "[]" "tweens w"]
  by (simp_all add: registry_is_def)

lemma reachable_next_walk:
  "walk_next h p = Some xs \<Longrightarrow> reachable_next h p j \<longleftrightarrow> j \<in> set xs"
proof
  assume r: "reachable_next h p j" and w: "walk_next h p = Some xs"
  from r w show "j \<in> set xs"
  proof (induction arbitrary: xs rule: reachable_next.induct)
    case (here h i)
    then show ?case
      by (subst (asm) walk_next.simps) (auto split: Option.bind_splits)
  next
    case (step h i j)
    from step.prems obtain rest where "walk_next h (t_next (h i)) = Some rest" "xs = i # rest"
      by (subst (asm) walk_next.simps) (auto split: Option.bind_splits)
    with step.IH show ?case by simp
  qed
next
  assume "walk_next h p = Some xs" and "j \<in> set xs"
  then show "reachable_next h p j"
  proof (induction xs arbitrary: p)
    case Nil
    then show ?case by simp
  next
    case (Cons x xs)
    show ?case
    proof (cases p)
      case None
      with Cons.prems show ?thesis by (simp add: walk_next.simps)
    next
      case (Some i)
      with Cons.prems(1) have ix: "i = x" and rest: "walk_next h (t_next (h i)) = Some xs"
        by (subst (asm) walk_next.simps; auto split: Option.bind_splits)+
      show ?thesis
      proof (cases "j = x")
        case True
        then show ?thesis by (simp add: Some ix reachable_next.here)
      next
        case False
        with Cons.prems(2) have "j \<in> set xs" by simp
        from Cons.IH [OF rest this] show ?thesis
          by (simp add: Some reachable_next.step)
      qed
    qed
  qed
qed

subsection \<open>What the registry invariant reads\<close>

lemma registry_part_eq:
  "registry_part w' = registry_part w \<longleftrightarrow>
     listHead w' = listHead w \<and> listTail w' = listTail w \<and>
     (\<forall>j. t_next (tweens w' j) = t_next (tweens w j) \<and>
          t_previous (tweens w' j) = t_previous (tweens w j) \<and>
          t_isPlaying (tweens w' j) = t_isPlaying (tweens w j))"
  by (auto simp: registry_part_def fun_eq_iff)

lemma registry_is_cong:
  "registry_part w' = registry_part w \<Longrightarrow> registry_is w' xs = registry_is w xs"
  by (simp add: registry_part_eq registry_is_def)

lemma registry_ok_cong:
  assumes "registry_part w' = registry_part w"
  shows "registry_ok w' = registry_ok w"
proof -
  have "\<And>xs. registry_is w' xs = registry_is w xs"
    by (rule registry_is_cong [OF assms])
  moreover have "\<And>j. t_isPlaying (tweens w' j) = t_isPlaying (tweens w j)"
    using assms by (simp add: registry_part_eq)
  ultimately show ?thesis
    by (simp only: registry_ok_def)
qed

lemma registry_part_upd:
  "(\<And>t. t_next (f t) = t_next t) \<Longrightarrow> (\<And>t. t_previous (f t) = t_previous t) \<Longrightarrow>
   (\<And>t. t_isPlaying (f t) = t_isPlaying t) \<Longrightarrow>
   registry_part (upd i f w) = registry_part w"
  by (simp add: registry_part_eq)

lemma registry_part_simps [simp]:
  "registry_part (emit e w) = registry_part w"
  "registry_part (writeCurrentState i s w) = registry_part w"
  "registry_part (applyFilter h i w) = registry_part w"
  "registry_part (setNow t w) = registry_part w"
  "registry_part (then_tw a b i w) = registry_part w"
  by (simp_all add: registry_part_eq setNow_def then_tw_def)

lemma callRender_proj [simp]:
  "tweens (callRender i st off w) = tweens w"
  "objs (callRender i st off w) = objs w"
  "nextObj (callRender i st off w) = nextObj w"
  "listHead (callRender i st off w) = listHead w"
  "listTail (callRender i st off w) = listTail w"
  "now (callRender i st off w) = now w"
  "formulaTable (callRender i st off w) = formulaTable w"
  "tweenableFilters (callRender i st off w) = tweenableFilters w"
  by (simp_all add: callRender_def split: option.split)

lemma callStart_proj [simp]:
  "tweens (callStart i w) = tweens w"
  "listHead (callStart i w) = listHead w"
  "listTail (callStart i w) = listTail w"
  "now (callStart i w) = now w"
  "formulaTable (callStart i w) = formulaTable w"
  "tweenableFilters (callStart i w) = tweenableFilters w"
  by (simp_all add: callStart_def get_def Let_def split: option.split)

lemma runTweenProps_proj [simp]:
  "tweens (world_of (runTweenProps i p d ts w)) = tweens w"
  "nextObj (world_of (runTweenProps i p d ts w)) = nextObj w"
  "listHead (world_of (runTweenProps i p d ts w)) = listHead w"
  "listTail (world_of (runTweenProps i p d ts w)) = listTail w"
  "now (world_of (runTweenProps i p d ts w)) = now w"
  "formulaTable (world_of (runTweenProps i p d ts w)) = formulaTable w"
  "tweenableFilters (world_of (runTweenProps i p d ts w)) = tweenableFilters w"
  "events (world_of (runTweenProps i p d ts w)) = events w"
  by (simp_all add: runTweenProps_def Let_def split: option.split)

lemma registry_part_simps2 [simp]:
  "registry_part (callRender i st off w) = registry_part w"
  "registry_part (callStart i w) = registry_part w"
  "registry_part (world_of (runTweenProps i p d ts w)) = registry_part w"
  by (simp_all add: registry_part_eq)

subsection \<open>The steps of stop\<close>

lemma stop_unfold:
  "stop g i w =
     (if \<not> t_isPlaying (tweens w i) then Done w
      else andThen (remove_tw i (upd i (\<lambda>t. t\<lparr>t_isPlaying := False\<rparr>) w))
             (\<lambda>w1. andThen (gotoEnd_steps g i w1) (\<lambda>w3. Done (resolve_and_clear i w3))))"
  by (simp only: stop_def gotoEnd_steps_def resolve_and_clear_def Let_def)

lemma completions_append [simp]:
  "completions (xs @ ys) = completions xs @ completions ys"
  "completions [] = []"
  by (simp_all add: completions_def)

lemma completions_single [simp]:
  "completions [Hook n h] = []"
  "completions [Start c s d] = []"
  "completions [Render c s d off] = []"
  "completions [Resolve c d s t] = [Resolve c d s t]"
  "completions [Reject c d s t] = [Reject c d s t]"
  by (simp_all add: completions_def)

lemma applyFilter_loop_completions [simp]:
  "completions (events (applyFilter_loop n h i w)) = completions (events w)"
  by (induction n arbitrary: w) (simp_all add: Let_def split: option.split)

lemma applyFilter_completions [simp]:
  "completions (events (applyFilter h i w)) = completions (events w)"
  by (simp add: applyFilter_def)

lemma gotoEnd_steps_cases:
  obtains (skip) "\<not> g" and "gotoEnd_steps g i w = Done w"
  | (finished) w2 where "g"
      and "runTweenProps i 1 (Some 1) 0
         (if length (t_filters (tweens w i)) > 0 then applyFilter BEFORE_TWEEN i w else w) = Done w2"
      and "gotoEnd_steps g i w =
         Done (if length (t_filters (tweens w i)) > 0
               then applyFilter AFTER_TWEEN_END i (applyFilter AFTER_TWEEN i w2) else w2)"
  | (threw) e w2 where "g"
      and "runTweenProps i 1 (Some 1) 0
         (if length (t_filters (tweens w i)) > 0 then applyFilter BEFORE_TWEEN i w else w) = Threw e w2"
      and "gotoEnd_steps g i w = Threw e w2"
proof (cases g)
  case False
  then show ?thesis using skip by (simp add: gotoEnd_steps_def)
next
  case True
  show ?thesis
  proof (cases "runTweenProps i 1 (Some 1) 0
         (if length (t_filters (tweens w i)) > 0 then applyFilter BEFORE_TWEEN i w else w)")
    case (Done w2)
    then show ?thesis using True finished [of w2] by (simp add: gotoEnd_steps_def)
  next
    case (Threw e w2)
    then show ?thesis using True threw [of e w2] by (simp add: gotoEnd_steps_def)
  qed
qed

lemma runTweenProps_world:
  assumes "runTweenProps i p d ts w = r" and "w2 = world_of r"
  shows "tweens w2 = tweens w" "nextObj w2 = nextObj w"
    "listHead w2 = listHead w" "listTail w2 = listTail w" "now w2 = now w"
    "formulaTable w2 = formulaTable w" "tweenableFilters w2 = tweenableFilters w"
    "events w2 = events w"
  using assms runTweenProps_proj [of i p d ts w] by simp_all

lemma gotoEnd_steps_frame:
  "ctl (tweens (world_of (gotoEnd_steps g i w)) j) = ctl (tweens w j) \<and>
   nextObj (world_of (gotoEnd_steps g i w)) = nextObj w \<and>
   listHead (world_of (gotoEnd_steps g i w)) = listHead w \<and>
   listTail (world_of (gotoEnd_steps g i w)) = listTail w \<and>
   now (world_of (gotoEnd_steps g i w)) = now w \<and>
   formulaTable (world_of (gotoEnd_steps g i w)) = formulaTable w \<and>
   tweenableFilters (world_of (gotoEnd_steps g i w)) = tweenableFilters w \<and>
   completions (events (world_of (gotoEnd_steps g i w))) = completions (events w)"
proof (cases g i w rule: gotoEnd_steps_cases)
  case skip
  then show ?thesis by simp
next
  case (finished w2)
  note r = runTweenProps_world [OF finished(2), of w2, simplified]
  show ?thesis
    by (cases "length (t_filters (tweens w i)) > 0") (simp_all add: finished(3) r)
next
  case (threw e w2)
  note r = runTweenProps_world [OF threw(2), of w2, simplified]
  show ?thesis
    by (cases "length (t_filters (tweens w i)) > 0") (simp_all add: threw(3) r)
qed

lemmas gotoEnd_steps_proj [simp] =
  gotoEnd_steps_frame [THEN conjunct1]
  gotoEnd_steps_frame [THEN conjunct2, THEN conjunct1]
  gotoEnd_steps_frame [THEN conjunct2, THEN conjunct2, THEN conjunct1]
  gotoEnd_steps_frame [THEN conjunct2, THEN conjunct2, THEN conjunct2, THEN conjunct1]
  gotoEnd_steps_frame [THEN conjunct2, THEN conjunct2, THEN conjunct2, THEN conjunct2,
    THEN conjunct1]
  gotoEnd_steps_frame [THEN conjunct2, THEN conjunct2, THEN conjunct2, THEN conjunct2,
    THEN conjunct2, THEN conjunct1]
  gotoEnd_steps_frame [THEN conjunct2, THEN conjunct2, THEN conjunct2, THEN conjunct2,
    THEN conjunct2, THEN conjunct2, THEN conjunct1]
  gotoEnd_steps_frame [THEN conjunct2, THEN conjunct2, THEN conjunct2, THEN conjunct2,
    THEN conjunct2, THEN conjunct2, THEN conjunct2]

lemmas gotoEnd_steps_fields [simp] = ctl_eqD [OF gotoEnd_steps_proj(1)]

lemma registry_part_gotoEnd [simp]:
  "registry_part (world_of (gotoEnd_steps g i w)) = registry_part w"
  by (simp add: registry_part_eq)

lemma resolve_and_clear_proj [simp]:
  "tweens (resolve_and_clear i w) =
     (tweens w)(i := (tweens w i)\<lparr>t_resolve := None, t_reject := None\<rparr>)"
  "objs (resolve_and_clear i w) = objs w"
  "nextObj (resolve_and_clear i w) = nextObj w"
  "listHead (resolve_and_clear i w) = listHead w"
  "listTail (resolve_and_clear i w) = listTail w"
  "now (resolve_and_clear i w) = now w"
  "formulaTable (resolve_and_clear i w) = formulaTable w"
  "tweenableFilters (resolve_and_clear i w) = tweenableFilters w"
  "events (resolve_and_clear i w) =
     events w @ (case t_resolve (tweens w i) of
                   None \<Rightarrow> []
                 | Some r \<Rightarrow> [Resolve r (t_data (tweens w i)) (currentStateOf i w) i])"
  by (simp_all add: resolve_and_clear_def split: option.split)

lemma registry_part_resolve [simp]:
  "registry_part (resolve_and_clear i w) = registry_part w"
  by (simp add: registry_part_eq)

lemma stop_registry_part:
  assumes "t_isPlaying (tweens w i)"
  shows "registry_part (world_of (stop g i w)) =
   registry_part (world_of (remove_tw i (upd i (\<lambda>t. t\<lparr>t_isPlaying := False\<rparr>) w)))"
proof (cases "remove_tw i (upd i (\<lambda>t. t\<lparr>t_isPlaying := False\<rparr>) w)")
  case (Done w1)
  show ?thesis
  proof (cases "gotoEnd_steps g i w1")
    case d: (Done w3)
    have "registry_part w3 = registry_part w1"
      using registry_part_gotoEnd [of g i w1] by (simp add: d)
    then show ?thesis using assms by (simp add: stop_unfold Done d)
  next
    case t: (Threw e w3)
    have "registry_part w3 = registry_part w1"
      using registry_part_gotoEnd [of g i w1] by (simp add: t)
    then show ?thesis using assms by (simp add: stop_unfold Done t)
  qed
next
  case (Threw e w1)
  then show ?thesis using assms by (simp add: stop_unfold)
qed

subsection \<open>Pause, stop and cancel\<close>

lemma pause_not_playing: "\<not> t_isPlaying (tweens w i) \<Longrightarrow> pause i w = Done w"
  by (simp add: pause_def)

lemma stop_not_playing: "\<not> t_isPlaying (tweens w i) \<Longrightarrow> stop g i w = Done w"
  by (simp add: stop_def)

lemma cancel_not_playing: "\<not> t_isPlaying (tweens w i) \<Longrightarrow> cancel g i w = Done w"
  by (simp add: cancel_def)

lemma pause_isPlaying:
  "t_isPlaying (tweens (world_of (pause i w)) j) = (j \<noteq> i \<and> t_isPlaying (tweens w j))"
  by (simp add: pause_def)

lemma stop_isPlaying:
  "t_isPlaying (tweens (world_of (stop g i w)) j) = (j \<noteq> i \<and> t_isPlaying (tweens w j))"
proof (cases "t_isPlaying (tweens w i)")
  case True
  from stop_registry_part [OF True, of g]
  have "t_isPlaying (tweens (world_of (stop g i w)) j) =
        t_isPlaying (tweens (world_of (remove_tw i (upd i (\<lambda>t. t\<lparr>t_isPlaying := False\<rparr>) w))) j)"
    by (simp add: registry_part_eq)
  then show ?thesis by simp
next
  case False
  then show ?thesis by (auto simp: stop_not_playing)
qed










subsection \<open>The registry invariant under the operations\<close>

lemma registry_ok_remove:
  assumes ok: "registry_ok w" and p: "t_isPlaying (tweens w i)"
    and f: "\<And>t. t_next (f t) = t_next t" "\<And>t. t_previous (f t) = t_previous t"
      "\<And>t. \<not> t_isPlaying (f t)"
  shows "\<exists>w1. remove_tw i (upd i f w) = Done w1 \<and> registry_ok w1"
proof -
  from ok obtain xs where xs: "registry_is w xs"
    and pl: "\<And>j. j \<in> set xs \<longleftrightarrow> t_isPlaying (tweens w j)"
    by (auto simp: registry_ok_def)
  have i: "i \<in> set xs" using p pl by simp
  have "registry_is (upd i f w) xs"
    using xs by (simp add: registry_is_upd f)
  from remove_tw_registry [OF this i] obtain w1
    where w1: "remove_tw i (upd i f w) = Done w1" and r1: "registry_is w1 (remove1 i xs)"
    by auto
  have d: "distinct xs" using xs by (simp add: registry_is_def)
  have "\<And>j. t_isPlaying (tweens w1 j) = (j \<noteq> i \<and> t_isPlaying (tweens w j))"
    using remove_tw_fields(15) [of i "upd i f w"] by (auto simp: w1 f)
  then have "\<And>j. j \<in> set (remove1 i xs) \<longleftrightarrow> t_isPlaying (tweens w1 j)"
    using d pl by auto
  with r1 have "registry_ok w1" by (auto simp: registry_ok_def)
  with w1 show ?thesis by blast
qed

lemma registry_ok_pause: "registry_ok w \<Longrightarrow> registry_ok (world_of (pause i w))"
proof (cases "t_isPlaying (tweens w i)")
  case True
  assume "registry_ok w"
  from registry_ok_remove [OF this True, of "\<lambda>t. t\<lparr>t_pausedAtTime := Some (now w), t_isPlaying := False\<rparr>"]
  show ?thesis using True by (auto simp: pause_def)
next
  case False
  assume "registry_ok w"
  then show ?thesis using False by (simp add: pause_def)
qed

lemma registry_ok_stop: "registry_ok w \<Longrightarrow> registry_ok (world_of (stop g i w))"
proof (cases "t_isPlaying (tweens w i)")
  case True
  assume "registry_ok w"
  from registry_ok_remove [OF this True, of "\<lambda>t. t\<lparr>t_isPlaying := False\<rparr>"]
  show ?thesis
    using registry_ok_cong [OF stop_registry_part [OF True, of g]] by auto
next
  case False
  assume "registry_ok w"
  then show ?thesis using False by (simp add: stop_not_playing)
qed


lemma registry_ok_cancel: "registry_ok w \<Longrightarrow> registry_ok (world_of (cancel g i w))"
proof (cases "t_isPlaying (tweens w i)")
  case True
  assume ok: "registry_ok w"
  let ?w = "upd i (\<lambda>t. t\<lparr>t_resolve := None, t_reject := None\<rparr>)
             (case t_reject (tweens w i) of
                None \<Rightarrow> w
              | Some reject \<Rightarrow>
                  emit (Reject reject (t_data (tweens w i)) (currentStateOf i w) i) w)"
  have "registry_part ?w = registry_part w"
    by (simp add: registry_part_upd split: option.split)
  from registry_ok_cong [OF this] have "registry_ok ?w" using ok by simp
  from registry_ok_stop [OF this, of g i] show ?thesis
    using True by (simp add: cancel_def)
next
  case False
  assume "registry_ok w"
  then show ?thesis using False by (simp add: cancel_not_playing)
qed

lemma registry_ok_insert:
  assumes ok: "registry_ok w" and p: "\<not> t_isPlaying (tweens w i)"
  shows "\<exists>w1. insert_tw i (upd i (\<lambda>t. t\<lparr>t_isPlaying := True\<rparr>) w) = Done w1 \<and> registry_ok w1"
proof -
  from ok obtain xs where xs: "registry_is w xs"
    and pl: "\<And>j. j \<in> set xs \<longleftrightarrow> t_isPlaying (tweens w j)"
    by (auto simp: registry_ok_def)
  have i: "i \<notin> set xs" using p pl by simp
  let ?w = "upd i (\<lambda>t. t\<lparr>t_isPlaying := True\<rparr>) w"
  have "registry_is ?w xs"
    using xs by (simp add: registry_is_upd)
  from insert_tw_registry [OF this i] obtain w1
    where w1: "insert_tw i ?w = Done w1" and r1: "registry_is w1 (xs @ [i])"
    by auto
  have "\<And>j. t_isPlaying (tweens w1 j) = (j = i \<or> t_isPlaying (tweens w j))"
    using insert_tw_fields(15) [of i ?w] by (auto simp: w1)
  then have "\<And>j. j \<in> set (xs @ [i]) \<longleftrightarrow> t_isPlaying (tweens w1 j)"
    using pl by auto
  with r1 have "registry_ok w1" unfolding registry_ok_def by blast
  with w1 show ?thesis by blast
qed

lemma registry_part_upd_flag:
  "(\<And>t. t_next (f t) = t_next t) \<Longrightarrow> (\<And>t. t_previous (f t) = t_previous t) \<Longrightarrow>
   t_isPlaying (f (tweens w i)) = t_isPlaying (tweens w i) \<Longrightarrow>
   registry_part (upd i f w) = registry_part w"
  by (simp add: registry_part_eq)

lemma fold_filters_registry_part:
  "registry_part
     (fold (\<lambda>(key, f) w'.
              if doesApply f (viewOf this w')
              then upd this (\<lambda>t. t\<lparr>t_filters := t_filters t @ [f]\<rparr>) w'
              else w') fl w) = registry_part w"
  by (induction fl arbitrary: w) (auto simp: registry_part_upd)

lemma setConfig_registry_part:
  "\<not> t_isPlaying (tweens w i) \<Longrightarrow> registry_part (setConfig c i w) = registry_part w"
  by (simp add: setConfig_def Let_def fold_filters_registry_part registry_part_upd
      registry_part_upd_flag)

lemma registry_ok_resume_started:
  assumes ok: "registry_ok w" and ts: "t_timestamp (tweens w i) \<noteq> None"
  shows "registry_ok (world_of (resume_internal ct i w))"
proof (cases "t_isPlaying (tweens w i)")
  case True
  then show ?thesis using ok ts by (auto simp: resume_internal.simps)
next
  case False
  let ?w1 = "case t_pausedAtTime (tweens w i) of
               None \<Rightarrow> w
             | Some pausedAtTime \<Rightarrow>
                 if pausedAtTime = 0 then w
                 else upd i (\<lambda>t. t\<lparr>
                        t_timestamp := map_option (\<lambda>ts. ts + (ct - pausedAtTime)) (t_timestamp t),
                        t_pausedAtTime := None\<rparr>) w"
  have rp: "registry_part ?w1 = registry_part w"
    by (simp add: registry_part_upd split: option.split)
  from registry_ok_cong [OF rp] ok have ok1: "registry_ok ?w1" by simp
  have np: "\<not> t_isPlaying (tweens ?w1 i)"
    using False rp by (simp add: registry_part_eq)
  from registry_ok_insert [OF ok1 np] show ?thesis
    using False ts by (auto simp: resume_internal.simps [of ct i w] Let_def)
qed

lemma registry_ok_tween:
  assumes ok: "registry_ok w"
  shows "registry_ok (world_of (tween c i w))"
proof -
  let ?r = "if t_isPlaying (tweens w i) then stop False i w else Done w"
  have ok_r: "registry_ok (world_of ?r)"
    using ok registry_ok_stop [OF ok, of False i] by simp
  have np_r: "\<not> t_isPlaying (tweens (world_of ?r) i)"
    by (simp add: stop_isPlaying)
  show ?thesis
  proof (cases ?r)
    case (Threw e w')
    then show ?thesis using ok_r by (simp add: tween.simps [of c i w])
  next
    case (Done w1)
    have ok1: "registry_ok w1" and np1: "\<not> t_isPlaying (tweens w1 i)"
      using ok_r np_r by (simp_all add: Done)
    let ?w2 = "case c of None \<Rightarrow> w1 | Some cfg \<Rightarrow> setConfig cfg i w1"
    let ?w3 = "upd i (\<lambda>t. t\<lparr>t_pausedAtTime := None, t_timestamp := Some (now ?w2)\<rparr>) ?w2"
    let ?w4 = "callStart i ?w3"
    let ?w5 = "if t_delay (tweens ?w4 i) \<noteq> 0
               then callRender i (currentStateOf i ?w4) (Some 0) ?w4 else ?w4"
    have rp2: "registry_part ?w2 = registry_part w1"
      using np1 by (simp add: setConfig_registry_part split: option.split)
    have rp5: "registry_part ?w5 = registry_part ?w2"
      by (simp add: registry_part_upd)
    from registry_ok_cong [OF rp5] registry_ok_cong [OF rp2] ok1
    have ok5: "registry_ok ?w5" by simp
    have ts5: "t_timestamp (tweens ?w5 i) \<noteq> None"
      by simp
    from registry_ok_resume_started [OF ok5 ts5, of "now ?w2"]
    show ?thesis
      by (simp add: tween.simps [of c i w] Done Let_def)
  qed
qed

lemma registry_ok_resume_internal:
  "registry_ok w \<Longrightarrow> registry_ok (world_of (resume_internal ct i w))"
  using registry_ok_tween [of w None i] registry_ok_resume_started [of w i ct]
  by (cases "t_timestamp (tweens w i) = None") (simp_all add: resume_internal.simps [of ct i w])

lemma andThen_runTweenProps_registry:
  assumes "\<And>w2. registry_part (F w2) = registry_part w2"
  shows "registry_part (world_of (andThen (runTweenProps i p d ts w) (\<lambda>w2. Done (F w2)))) =
         registry_part w"
proof (cases "runTweenProps i p d ts w")
  case (Done w2)
  from registry_part_simps2(3) [of i p d ts w] show ?thesis
    by (simp add: Done assms)
next
  case (Threw e w2)
  from registry_part_simps2(3) [of i p d ts w] show ?thesis
    by (simp add: Threw)
qed

lemma registry_ok_processTween:
  assumes ok: "registry_ok w"
  shows "registry_ok (world_of (processTween i ct w))"
proof -
  let ?ts = "case t_timestamp (tweens w i) of None \<Rightarrow> 0 | Some ts \<Rightarrow> ts"
  let ?w0 = "if length (t_filters (tweens w i)) > 0 then applyFilter BEFORE_TWEEN i w else w"
  have w0: "registry_part ?w0 = registry_part w" by simp
  show ?thesis
  proof (cases "ct < ?ts + t_delay (tweens w i)")
    case True
    then show ?thesis using ok by (simp add: processTween_def Let_def)
  next
    case early: False
    show ?thesis
    proof (cases "t_duration (tweens w i)")
      case None
      have "registry_part (world_of (processTween i ct w)) = registry_part w"
        using early
        by (simp add: processTween_def Let_def None andThen_runTweenProps_registry)
      from registry_ok_cong [OF this] ok show ?thesis by simp
    next
      case (Some d)
      show ?thesis
      proof (cases "ct \<ge> ?ts + t_delay (tweens w i) + d")
        case True
        have "registry_ok (world_of (stop True i (callRender i st off w)))" for st off
        proof -
          have "registry_part (callRender i st off w) = registry_part w" by simp
          from registry_ok_cong [OF this] ok have "registry_ok (callRender i st off w)" by simp
          from registry_ok_stop [OF this, of True i] show ?thesis .
        qed
        then show ?thesis
          using early True by (simp add: processTween_def Let_def Some)
      next
        case False
        have "registry_part (world_of (processTween i ct w)) = registry_part w"
          using early False
          by (simp add: processTween_def Let_def Some andThen_runTweenProps_registry)
        from registry_ok_cong [OF this] ok show ?thesis by simp
      qed
    qed
  qed
qed

lemma registry_ok_seek: "registry_ok w \<Longrightarrow> registry_ok (world_of (seek ms i w))"
proof -
  assume ok: "registry_ok w"
  let ?w = "upd i (\<lambda>t. t\<lparr>t_timestamp := Some (now w - max ms 0)\<rparr>) w"
  have "registry_part ?w = registry_part w" by (simp add: registry_part_upd)
  from registry_ok_cong [OF this] ok have "registry_ok ?w" by simp
  from registry_ok_processTween [OF this, of i "now w"] ok
  show ?thesis by (simp add: seek_def Let_def)
qed

lemma registry_ok_perform: "registry_ok w \<Longrightarrow> registry_ok (world_of (perform c w))"
proof (cases c)
  case (Then i a b)
  assume "registry_ok w"
  then show ?thesis
    using registry_ok_cong [OF registry_part_simps(5) [of a b i w]] by (simp add: Then)
next
  case (Clock t)
  assume "registry_ok w"
  then show ?thesis
    using registry_ok_cong [OF registry_part_simps(4) [of t w]] by (simp add: Clock)
qed (simp_all add: registry_ok_tween registry_ok_pause registry_ok_resume_internal resume_def
      registry_ok_stop registry_ok_cancel registry_ok_seek)

lemma registry_ok_run: "registry_ok w \<Longrightarrow> registry_ok (run cs w)"
  by (induction cs arbitrary: w) (simp_all add: registry_ok_perform)

lemma registry_ok_initial:
  "listHead w = None \<Longrightarrow> listTail w = None \<Longrightarrow>
   (\<And>j. t_next (tweens w j) = None \<and> t_previous (tweens w j) = None \<and> \<not> t_isPlaying (tweens w j)) \<Longrightarrow>
   registry_ok w"
  unfolding registry_ok_def registry_is_def
  by (rule exI [of _ "[]"]) (simp add: pred_in_def)

subsection \<open>Unfolding the operations on a concrete world\<close>

lemmas eval_defs = initialWorld_def newTweenable_def emptyConfig_def callStart_def
  callRender_def get_def currentStateOf_def insert_tw_def remove_tw_def Let_def then_tw_def
  setNow_def upd_def emit_def writeCurrentState_def resume_def pause_def stop_def cancel_def
  seek_def

subsection \<open>The filter loop and resume\<close>

text \<open>Every round of the loop of \<^verbatim>\<open>_applyFilter\<close> calls the hook of the first filter.\<close>

lemma callHook_filters [simp]:
  "t_filters (tweens (callHook ft h f i w) j) = t_filters (tweens w j)"
  using ctl_eqD(4) [OF callHook_proj(1)] .

lemma applyFilter_loop_first_only:
  assumes "t_filters (tweens w i) = f0 # fs" and "hook f0 h = Some g"
  shows "events (applyFilter_loop n h i w) = events w @ replicate n (Hook (f_name f0) h)"
  using assms(1)
proof (induction n arbitrary: w)
  case 0
  then show ?case by simp
next
  case (Suc n)
  have "t_filters (tweens (callHook f0 h g i w) i) = f0 # fs"
    using Suc.prems by simp
  from Suc.IH [OF this] show ?case
    using Suc.prems assms(2) by (simp add: Let_def replicate_append_same)
qed

lemma applyFilter_first_only:
  "t_filters (tweens w i) = f0 # fs \<Longrightarrow> hook f0 h = Some g \<Longrightarrow>
   events (applyFilter h i w) = events w @ replicate (Suc (length fs)) (Hook (f_name f0) h)"
  using applyFilter_loop_first_only [of w i f0 fs h g "Suc (length fs)"]
  by (simp add: applyFilter_def)

text \<open>\<^verbatim>\<open>resume\<close> after a pause at a clock value other than zero.\<close>

lemma resume_shifts_timestamp:
  assumes "t_timestamp (tweens w i) = Some ts" and "\<not> t_isPlaying (tweens w i)"
    and "t_pausedAtTime (tweens w i) = Some p" and "p \<noteq> 0"
  shows "t_timestamp (tweens (world_of (resume i w)) i) = Some (ts + (now w - p))"
    and "t_pausedAtTime (tweens (world_of (resume i w)) i) = None"
  using assms
  by (simp_all add: resume_def resume_internal.simps [of "now w" i w] Let_def)

subsection \<open>The branches of processTween\<close>

lemma processTween_early:
  "ct < (case t_timestamp (tweens w i) of None \<Rightarrow> 0 | Some ts \<Rightarrow> ts) + t_delay (tweens w i) \<Longrightarrow>
   processTween i ct w = Done w"
  by (simp add: processTween_def Let_def)


lemma processTween_active:
  assumes "t_timestamp (tweens w i) = Some ts" and "t_duration (tweens w i) = Some d"
    and "ts + t_delay (tweens w i) \<le> ct" and "ct < ts + t_delay (tweens w i) + d"
    and "t_filters (tweens w i) = []"
  shows "processTween i ct w =
           andThen (runTweenProps i ct (Some d) (ts + t_delay (tweens w i)) w)
             (\<lambda>w2. Done (callRender i (currentStateOf i w2)
                            (Some (ct - ts - t_delay (tweens w i))) w2))"
  using assms by (simp add: processTween_def Let_def algebra_simps)

lemma runTweenProps_Single:
  assumes "t_easing (tweens w i) = Some (Single f)"
  shows "runTweenProps i p d ts w =
           Done (writeCurrentState i
                   (fold (\<lambda>key. AList.update key
                            (interpolate (map_of (t_originalState (tweens w i)) key)
                               (map_of (t_targetState (tweens w i)) key)
                               (map_option f (normalizedPosition p ts d))))
                      (map fst (currentStateOf i w)) (currentStateOf i w)) w)"
  by (simp add: runTweenProps_def Let_def assms tweenProps_Single)

subsection \<open>Events only grow\<close>







subsection \<open>Interpolating twice\<close>

lemma tweenProps_loop_perProperty_general:
  "tweenProps_loop fm np e None orig targ ks cur n =
     \<lparr>r_state = fold (\<lambda>key. AList.update key
                   (interpolate (map_of orig key) (map_of targ key)
                      (map_option (the (easingFnFor fm e key)) np)))
                 (takeWhile (\<lambda>k. easingFnFor fm e k \<noteq> None) ks) cur,
      r_easingCalls = n + length (takeWhile (\<lambda>k. easingFnFor fm e k \<noteq> None) ks),
      r_error = (if \<forall>k \<in> set ks. easingFnFor fm e k \<noteq> None then None else Some TypeError)\<rparr>"
  by (induction ks arbitrary: cur n) (auto split: option.split)

lemma tweenProps_shape:
  "\<exists>ps V c err. set ps \<subseteq> set (map fst cur) \<and>
     (\<forall>cur'. map fst cur' = map fst cur \<longrightarrow>
        tweenProps fm p cur' orig targ d ts e =
          \<lparr>r_state = fold (\<lambda>k. AList.update k (V k)) ps cur', r_easingCalls = c, r_error = err\<rparr>)"
proof (cases "\<exists>f. e = Some (Single f)")
  case True
  then obtain f where e: "e = Some (Single f)" ..
  show ?thesis
    apply (rule exI [of _ "map fst cur"])
    apply (rule exI [of _ "\<lambda>key. interpolate (map_of orig key) (map_of targ key)
                      (map_option f (normalizedPosition p ts d))"])
    apply (rule exI [of _ 1])
    apply (rule exI [of _ None])
    apply (simp add: e tweenProps_Single)
    done
next
  case False
  then have t: "\<And>cur'. tweenProps fm p cur' orig targ d ts e =
      tweenProps_loop fm (normalizedPosition p ts d) e None orig targ (map fst cur') cur' 0"
    by (auto simp: tweenProps_def Let_def split: option.split easing.split)
  show ?thesis
    apply (rule exI [of _ "takeWhile (\<lambda>k. easingFnFor fm e k \<noteq> None) (map fst cur)"])
    apply (rule exI [of _ "\<lambda>key. interpolate (map_of orig key) (map_of targ key)
                      (map_option (the (easingFnFor fm e key)) (normalizedPosition p ts d))"])
    apply (rule exI [of _ "length (takeWhile (\<lambda>k. easingFnFor fm e k \<noteq> None) (map fst cur))"])
    apply (rule exI [of _ "if \<forall>k \<in> set (map fst cur). easingFnFor fm e k \<noteq> None
                           then None else Some TypeError"])
    apply (rule conjI)
     apply (meson set_takeWhileD subsetI)
    apply (simp only: t tweenProps_loop_perProperty_general)
    apply simp
    done
qed

lemma fold_update_fixed:
  "(\<And>k. k \<in> set ps \<Longrightarrow> map_of S k = Some (V k)) \<Longrightarrow>
   fold (\<lambda>k. AList.update k (V k)) ps S = S"
  by (induction ps) (simp_all add: update_triv)

lemma tweenProps_idem:
  "tweenProps fm p (r_state (tweenProps fm p cur orig targ d ts e)) orig targ d ts e =
   tweenProps fm p cur orig targ d ts e"
proof -
  from tweenProps_shape [of cur fm p orig targ d ts e]
  obtain ps V c err where ps: "set ps \<subseteq> set (map fst cur)"
    and sh: "\<And>cur'. map fst cur' = map fst cur \<Longrightarrow>
        tweenProps fm p cur' orig targ d ts e =
          \<lparr>r_state = fold (\<lambda>k. AList.update k (V k)) ps cur', r_easingCalls = c, r_error = err\<rparr>"
    by blast
  let ?S = "fold (\<lambda>k. AList.update k (V k)) ps cur"
  have 1: "tweenProps fm p cur orig targ d ts e =
             \<lparr>r_state = ?S, r_easingCalls = c, r_error = err\<rparr>"
    by (rule sh) simp
  have k: "map fst ?S = map fst cur"
    by (rule keys_fold_update [OF ps])
  have "fold (\<lambda>k. AList.update k (V k)) ps ?S = ?S"
    by (rule fold_update_fixed) (simp add: map_of_fold_update)
  with sh [OF k] show ?thesis by (simp add: 1)
qed

subsection \<open>seek(0)\<close>

text \<open>
  The world after \<^verbatim>\<open>seek(0)\<close> on a tweenable without filters, with a positive duration
  and a delay that is not negative.
\<close>

lemma seek_zero_world:
  assumes nf: "t_filters (tweens w i) = []" and du: "t_duration (tweens w i) = Some d"
    and dp: "0 < d" and de: "0 \<le> t_delay (tweens w i)"
  defines "G \<equiv> (case t_timestamp (tweens w i) of None \<Rightarrow> 0 | Some ts \<Rightarrow> ts) = (0::rat)"
  defines "w' \<equiv> upd i (\<lambda>t. t\<lparr>t_timestamp := Some (now w)\<rparr>) w"
  defines "r \<equiv> tweenProps (formulaTable w) (now w) (currentStateOf i w)
                  (t_originalState (tweens w i)) (t_targetState (tweens w i)) (Some d) (now w)
                  (t_easing (tweens w i))"
  shows "tweens (world_of (seek 0 i w)) = (if G then tweens w else tweens w')"
    and "objs (world_of (seek 0 i w)) =
           (if G \<or> 0 < t_delay (tweens w i) then objs w
            else (objs w)(t_currentState (tweens w i) := r_state r))"
    and "events (world_of (seek 0 i w)) =
           events w @
           (if G \<or> 0 < t_delay (tweens w i) \<or> r_error r \<noteq> None then []
            else (case t_render (tweens w i) of
                    None \<Rightarrow> []
                  | Some cb \<Rightarrow> [Render cb (r_state r) (t_data (tweens w i)) (Some 0)]))"
    and "nextObj (world_of (seek 0 i w)) = nextObj w"
    and "listHead (world_of (seek 0 i w)) = listHead w"
    and "listTail (world_of (seek 0 i w)) = listTail w"
    and "now (world_of (seek 0 i w)) = now w"
    and "formulaTable (world_of (seek 0 i w)) = formulaTable w"
    and "tweenableFilters (world_of (seek 0 i w)) = tweenableFilters w"
    and "(\<exists>x. seek 0 i w = Done x) \<longleftrightarrow> G \<or> 0 < t_delay (tweens w i) \<or> r_error r = None"
proof -
  have s0: "G \<Longrightarrow> seek 0 i w = Done w"
    by (simp add: seek_def G_def)
  have ts': "t_timestamp (tweens w' i) = Some (now w)" "t_delay (tweens w' i) = t_delay (tweens w i)"
    "t_duration (tweens w' i) = Some d" "t_filters (tweens w' i) = []"
    by (simp_all add: w'_def nf du)
  have s1: "\<not> G \<Longrightarrow> 0 < t_delay (tweens w i) \<Longrightarrow> seek 0 i w = Done w'"
    using processTween_early [of "now w" w' i]
    by (simp add: seek_def G_def Let_def w'_def [symmetric] ts')
  have act: "processTween i (now w) w' =
           andThen (runTweenProps i (now w) (Some d) (now w + t_delay (tweens w' i)) w')
             (\<lambda>w2. Done (callRender i (currentStateOf i w2)
                            (Some (now w - now w - t_delay (tweens w' i))) w2))"
    if "t_delay (tweens w i) = 0"
    by (rule processTween_active) (simp_all add: ts' that dp)
  have s2: "seek 0 i w =
           andThen (runTweenProps i (now w) (Some d) (now w) w')
             (\<lambda>w2. Done (callRender i (currentStateOf i w2) (Some 0) w2))"
    if "\<not> G" "t_delay (tweens w i) = 0"
    using that act by (simp add: seek_def G_def Let_def w'_def [symmetric] ts')
  have r': "tweenProps (formulaTable w') (now w) (currentStateOf i w')
                  (t_originalState (tweens w' i)) (t_targetState (tweens w' i)) (Some d) (now w)
                  (t_easing (tweens w' i)) = r"
    by (simp add: r_def w'_def currentStateOf_def)
  have cases3: "G \<or> (\<not> G \<and> 0 < t_delay (tweens w i)) \<or> (\<not> G \<and> t_delay (tweens w i) = 0)"
    using de by auto
  have run: "runTweenProps i (now w) (Some d) (now w) w' =
               (case r_error r of
                  None \<Rightarrow> Done (writeCurrentState i (r_state r) w')
                | Some e \<Rightarrow> Threw e (writeCurrentState i (r_state r) w'))"
    by (simp only: runTweenProps_def Let_def r')
  have w'p: "objs w' = objs w" "events w' = events w" "nextObj w' = nextObj w"
    "listHead w' = listHead w" "listTail w' = listTail w" "now w' = now w"
    "formulaTable w' = formulaTable w" "tweenableFilters w' = tweenableFilters w"
    "t_currentState (tweens w' i) = t_currentState (tweens w i)"
    "t_render (tweens w' i) = t_render (tweens w i)" "t_data (tweens w' i) = t_data (tweens w i)"
    by (simp_all add: w'_def)
  show "tweens (world_of (seek 0 i w)) = (if G then tweens w else tweens w')"
    using cases3 by (auto simp: s0 s1 s2 run split: option.split)
  show "objs (world_of (seek 0 i w)) =
           (if G \<or> 0 < t_delay (tweens w i) then objs w
            else (objs w)(t_currentState (tweens w i) := r_state r))"
    using cases3 by (auto simp: s0 s1 s2 run w'p split: option.split)
  show "events (world_of (seek 0 i w)) =
           events w @
           (if G \<or> 0 < t_delay (tweens w i) \<or> r_error r \<noteq> None then []
            else (case t_render (tweens w i) of
                    None \<Rightarrow> []
                  | Some cb \<Rightarrow> [Render cb (r_state r) (t_data (tweens w i)) (Some 0)]))"
    using cases3
    by (auto simp: s0 s1 s2 run w'p callRender_def currentStateOf_def split: option.split)
  show "nextObj (world_of (seek 0 i w)) = nextObj w"
    "listHead (world_of (seek 0 i w)) = listHead w"
    "listTail (world_of (seek 0 i w)) = listTail w"
    "now (world_of (seek 0 i w)) = now w"
    "formulaTable (world_of (seek 0 i w)) = formulaTable w"
    "tweenableFilters (world_of (seek 0 i w)) = tweenableFilters w"
    using cases3 by (auto simp: s0 s1 s2 run w'p split: option.split)
  show "(\<exists>x. seek 0 i w = Done x) \<longleftrightarrow> G \<or> 0 < t_delay (tweens w i) \<or> r_error r = None"
    using cases3 by (auto simp: s0 s1 s2 run split: option.split)
qed

section \<open>The properties\<close>







text \<open>
  C4. Start from a world with an empty registry in which no tweenable is playing or
  linked, and make any finite sequence of calls of \<^verbatim>\<open>tween\<close> (play), \<^verbatim>\<open>pause\<close>, \<^verbatim>\<open>resume\<close>,
  \<^verbatim>\<open>stop\<close> and \<^verbatim>\<open>cancel\<close> (and of \<^verbatim>\<open>seek\<close> and \<^verbatim>\<open>then\<close>, while the clock moves) on any
  tweenables, going on after a call that throws. Then the traversal from the head along
  \<^verbatim>\<open>_next\<close> ends and visits a list of distinct tweenables, the traversal from the tail
  along \<^verbatim>\<open>_previous\<close> ends and visits the same list in reverse, the tweenables visited are
  exactly those whose \<^verbatim>\<open>_isPlaying\<close> is true, and a tweenable can be reached from the head
  if and only if it is playing.
\<close>

theorem registry_holds_playing:
  assumes "listHead w0 = None" and "listTail w0 = None"
    and "\<forall>j. t_next (tweens w0 j) = None \<and> t_previous (tweens w0 j) = None \<and>
             \<not> t_isPlaying (tweens w0 j)"
  shows "\<exists>xs. distinct xs \<and>
           walk_next (tweens (run cs w0)) (listHead (run cs w0)) = Some xs \<and>
           walk_previous (tweens (run cs w0)) (listTail (run cs w0)) = Some (rev xs) \<and>
           (\<forall>j. j \<in> set xs \<longleftrightarrow> t_isPlaying (tweens (run cs w0) j)) \<and>
           (\<forall>j. reachable_next (tweens (run cs w0)) (listHead (run cs w0)) j
                  \<longleftrightarrow> t_isPlaying (tweens (run cs w0) j))"
proof -
  have "registry_ok w0"
    using assms by (intro registry_ok_initial) simp_all
  then have "registry_ok (run cs w0)" by (rule registry_ok_run)
  then obtain xs where xs: "registry_is (run cs w0) xs"
    and pl: "\<forall>j. j \<in> set xs \<longleftrightarrow> t_isPlaying (tweens (run cs w0) j)"
    by (auto simp: registry_ok_def)
  note wk = registry_is_walk [OF xs]
  have "\<forall>j. reachable_next (tweens (run cs w0)) (listHead (run cs w0)) j
                  \<longleftrightarrow> t_isPlaying (tweens (run cs w0) j)"
    using reachable_next_walk [OF wk(1)] pl by simp
  moreover have "distinct xs" using xs by (simp add: registry_is_def)
  ultimately show ?thesis using wk pl by blast
qed

theorem registry_holds_playing_witness:
  "\<exists>xs. walk_next (tweens (run [Play 0 None, Play 1 None, Play 2 None, Pause 1]
            (initialWorld (\<lambda>i. i) (\<lambda>a. []) 0 0 (\<lambda>n. None) [])))
          (listHead (run [Play 0 None, Play 1 None, Play 2 None, Pause 1]
            (initialWorld (\<lambda>i. i) (\<lambda>a. []) 0 0 (\<lambda>n. None) []))) = Some xs \<and>
        (\<forall>j. j \<in> set xs \<longleftrightarrow> t_isPlaying (tweens (run [Play 0 None, Play 1 None, Play 2 None, Pause 1]
            (initialWorld (\<lambda>i. i) (\<lambda>a. []) 0 0 (\<lambda>n. None) [])) j))"
  using registry_holds_playing [of "initialWorld (\<lambda>i. i) (\<lambda>a. []) 0 0 (\<lambda>n. None) []"
      "[Play 0 None, Play 1 None, Play 2 None, Pause 1]"]
  by (simp add: initialWorld_def newTweenable_def) blast

text \<open>
  C5. Two filters \<open>A\<close> and \<open>B\<close>, registered in this order, both apply to a tweenable
  with a string property, and both have a \<^verbatim>\<open>beforeTween\<close> hook. The specification has the pipeline
  call the hook of \<open>B\<close> and then the hook of \<open>A\<close>, each once. The loop of
  \<^verbatim>\<open>_applyFilter\<close> reads \<^verbatim>\<open>this._filters[i - i]\<close>, the first filter, in every round: the
  hook of \<open>A\<close> is called twice and the hook of \<open>B\<close> never.
\<close>

theorem applyFilter_calls_first_filter_only:
  "map f_name (t_filters (tweens
       (setConfig emptyConfig 0
          (initialWorld (\<lambda>i. i) (\<lambda>a. [(''x'', Str ''10px'')]) 1 0 (\<lambda>n. None)
             [(''A'', \<lparr>f_name = ''A'', doesApply = (\<lambda>v. True), tweenCreated = None,
                        beforeTween = Some (\<lambda>v. v), afterTween = None, afterTweenEnd = None\<rparr>),
              (''B'', \<lparr>f_name = ''B'', doesApply = (\<lambda>v. True), tweenCreated = None,
                        beforeTween = Some (\<lambda>v. v), afterTween = None, afterTweenEnd = None\<rparr>)]))
       0)) = [''A'', ''B'']
   \<and> events (applyFilter BEFORE_TWEEN 0
       (setConfig emptyConfig 0
          (initialWorld (\<lambda>i. i) (\<lambda>a. [(''x'', Str ''10px'')]) 1 0 (\<lambda>n. None)
             [(''A'', \<lparr>f_name = ''A'', doesApply = (\<lambda>v. True), tweenCreated = None,
                        beforeTween = Some (\<lambda>v. v), afterTween = None, afterTweenEnd = None\<rparr>),
              (''B'', \<lparr>f_name = ''B'', doesApply = (\<lambda>v. True), tweenCreated = None,
                        beforeTween = Some (\<lambda>v. v), afterTween = None, afterTweenEnd = None\<rparr>)])))
     = [Hook ''A'' BEFORE_TWEEN, Hook ''A'' BEFORE_TWEEN]"
  by (simp add: setConfig_def applyFilter_def mergeConfig_def orElse_def composeEasingObject_def
      DEFAULT_EASING_def DEFAULT_DURATION_def viewOf_def callHook_def writeView_def eval_defs
      numeral_2_eq_2)

text \<open>
  C6. The clock reads 0 when a tweenable is started and paused, and 1000 when it is
  resumed. The specification has \<^verbatim>\<open>resume\<close> move the timestamp forward by the 1000 that the pause
  lasted, to 1000, and clear \<^verbatim>\<open>_pausedAtTime\<close>. The test \<^verbatim>\<open>if (this._pausedAtTime)\<close> of
  \<^verbatim>\<open>_resume\<close> takes the pause time 0 for no pause at all: the timestamp stays 0 and
  \<^verbatim>\<open>_pausedAtTime\<close> stays 0, so the paused time counts against the animation. Paused at
  30 and resumed at 1030 instead, the same tweenable has its timestamp moved to 1000 and
  \<^verbatim>\<open>_pausedAtTime\<close> cleared, as the specification says.
\<close>

theorem resume_after_pause_at_zero:
  "t_pausedAtTime (tweens (run [Play 0 None, Pause 0]
       (initialWorld (\<lambda>i. i) (\<lambda>a. []) 0 0 (\<lambda>n. None) [])) 0) = Some 0
   \<and> t_timestamp (tweens (run [Play 0 None, Pause 0, Clock 1000, Resume 0]
       (initialWorld (\<lambda>i. i) (\<lambda>a. []) 0 0 (\<lambda>n. None) [])) 0) = Some 0
   \<and> t_pausedAtTime (tweens (run [Play 0 None, Pause 0, Clock 1000, Resume 0]
       (initialWorld (\<lambda>i. i) (\<lambda>a. []) 0 0 (\<lambda>n. None) [])) 0) = Some 0
   \<and> t_isPlaying (tweens (run [Play 0 None, Pause 0, Clock 1000, Resume 0]
       (initialWorld (\<lambda>i. i) (\<lambda>a. []) 0 0 (\<lambda>n. None) [])) 0)
   \<and> t_timestamp (tweens (run [Play 0 None, Clock 30, Pause 0, Clock 1030, Resume 0]
       (initialWorld (\<lambda>i. i) (\<lambda>a. []) 0 0 (\<lambda>n. None) [])) 0) = Some 1000
   \<and> t_pausedAtTime (tweens (run [Play 0 None, Clock 30, Pause 0, Clock 1030, Resume 0]
       (initialWorld (\<lambda>i. i) (\<lambda>a. []) 0 0 (\<lambda>n. None) [])) 0) = None"
  by (simp add: tween.simps resume_internal.simps eval_defs)

text \<open>
  C7. Take a tweenable with a positive delay and a positive duration. A call of
  \<^verbatim>\<open>processTween\<close> at a time earlier than timestamp + delay changes nothing and calls no
  callback. At a time in the active phase, with no filter and linear easing,
  \<^verbatim>\<open>processTween\<close> interpolates with the timestamp moved forward by the delay: every
  numeric property becomes
  \<open>original + (target - original) * ((currentTime - (timestamp + delay)) / duration)\<close>,
  and the render callback is called once with the state so computed and the offset
  \<open>currentTime - timestamp - delay\<close>. The witness is the scenario of the specification: delay 50,
  duration 100, from \<open>{x: 0}\<close> to \<open>{x: 10}\<close>; at 25 nothing happens, at 75 the callback
  receives \<open>{x: 2.5}\<close>.
\<close>

theorem processTween_delay:
  assumes "t_timestamp (tweens w i) = Some ts" and "0 < t_delay (tweens w i)"
    and "t_duration (tweens w i) = Some d" and "0 < d"
  shows "(ct < ts + t_delay (tweens w i) \<longrightarrow> processTween i ct w = Done w)
       \<and> (ts + t_delay (tweens w i) \<le> ct \<and> ct < ts + t_delay (tweens w i) + d \<and>
          t_filters (tweens w i) = [] \<and> t_easing (tweens w i) = Some (Single linear) \<longrightarrow>
          (\<exists>w'. processTween i ct w = Done w' \<and> tweens w' = tweens w \<and>
             (\<forall>k a b. k \<in> fst ` set (currentStateOf i w) \<and>
                       map_of (t_originalState (tweens w i)) k = Some (Num a) \<and>
                       map_of (t_targetState (tweens w i)) k = Some (Num b) \<longrightarrow>
                       map_of (currentStateOf i w') k =
                         Some (Num (a + (b - a) * ((ct - (ts + t_delay (tweens w i))) / d)))) \<and>
             events w' = events w @
               (case t_render (tweens w i) of
                  None \<Rightarrow> []
                | Some cb \<Rightarrow> [Render cb (currentStateOf i w') (t_data (tweens w i))
                               (Some (ct - ts - t_delay (tweens w i)))])))"
proof (intro conjI impI)
  assume "ct < ts + t_delay (tweens w i)"
  then show "processTween i ct w = Done w"
    using assms(1) by (simp add: processTween_early)
next
  assume a: "ts + t_delay (tweens w i) \<le> ct \<and> ct < ts + t_delay (tweens w i) + d \<and>
          t_filters (tweens w i) = [] \<and> t_easing (tweens w i) = Some (Single linear)"
  let ?st = "fold (\<lambda>key. AList.update key
                 (interpolate (map_of (t_originalState (tweens w i)) key)
                    (map_of (t_targetState (tweens w i)) key)
                    (map_option linear
                       (normalizedPosition ct (ts + t_delay (tweens w i)) (Some d)))))
               (map fst (currentStateOf i w)) (currentStateOf i w)"
  let ?w2 = "writeCurrentState i ?st w"
  let ?w' = "callRender i (currentStateOf i ?w2) (Some (ct - ts - t_delay (tweens w i))) ?w2"
  have np: "normalizedPosition ct (ts + t_delay (tweens w i)) (Some d) =
              Some ((ct - (ts + t_delay (tweens w i))) / d)"
    using a assms(4) by (simp add: normalizedPosition_Some)
  have p: "processTween i ct w = Done ?w'"
    using a assms by (simp add: processTween_active runTweenProps_Single)
  have cur: "currentStateOf i ?w' = ?st"
    by (simp add: currentStateOf_def)
  have "tweens ?w' = tweens w" by simp
  moreover have "\<forall>k a b. k \<in> fst ` set (currentStateOf i w) \<and>
                       map_of (t_originalState (tweens w i)) k = Some (Num a) \<and>
                       map_of (t_targetState (tweens w i)) k = Some (Num b) \<longrightarrow>
                       map_of (currentStateOf i ?w') k =
                         Some (Num (a + (b - a) * ((ct - (ts + t_delay (tweens w i))) / d)))"
    unfolding cur by (auto simp: map_of_fold_update np linear_def)
  moreover have "events ?w' = events w @
               (case t_render (tweens w i) of
                  None \<Rightarrow> []
                | Some cb \<Rightarrow> [Render cb (currentStateOf i ?w') (t_data (tweens w i))
                               (Some (ct - ts - t_delay (tweens w i)))])"
    unfolding cur by (simp add: callRender_def currentStateOf_def split: option.split)
  ultimately show "\<exists>w'. processTween i ct w = Done w' \<and> tweens w' = tweens w \<and>
             (\<forall>k a b. k \<in> fst ` set (currentStateOf i w) \<and>
                       map_of (t_originalState (tweens w i)) k = Some (Num a) \<and>
                       map_of (t_targetState (tweens w i)) k = Some (Num b) \<longrightarrow>
                       map_of (currentStateOf i w') k =
                         Some (Num (a + (b - a) * ((ct - (ts + t_delay (tweens w i))) / d)))) \<and>
             events w' = events w @
               (case t_render (tweens w i) of
                  None \<Rightarrow> []
                | Some cb \<Rightarrow> [Render cb (currentStateOf i w') (t_data (tweens w i))
                               (Some (ct - ts - t_delay (tweens w i)))])"
    using p by blast
qed

theorem processTween_delay_witness:
  "processTween 0 25
     (run [Play 0 (Some (emptyConfig\<lparr>c_from := Some [(''x'', Num 0)], c_to := Some [(''x'', Num 10)],
                                     c_delay := Some 50, c_duration := Some 100,
                                     c_render := Some 7\<rparr>))]
        (initialWorld (\<lambda>i. i) (\<lambda>a. []) 1 0 (\<lambda>n. if n = ''linear'' then Some linear else None) []))
   = Done
     (run [Play 0 (Some (emptyConfig\<lparr>c_from := Some [(''x'', Num 0)], c_to := Some [(''x'', Num 10)],
                                     c_delay := Some 50, c_duration := Some 100,
                                     c_render := Some 7\<rparr>))]
        (initialWorld (\<lambda>i. i) (\<lambda>a. []) 1 0 (\<lambda>n. if n = ''linear'' then Some linear else None) []))
   \<and> events (world_of (processTween 0 75
     (run [Play 0 (Some (emptyConfig\<lparr>c_from := Some [(''x'', Num 0)], c_to := Some [(''x'', Num 10)],
                                     c_delay := Some 50, c_duration := Some 100,
                                     c_render := Some 7\<rparr>))]
        (initialWorld (\<lambda>i. i) (\<lambda>a. []) 1 0 (\<lambda>n. if n = ''linear'' then Some linear else None) []))))
   = [Render 7 [(''x'', Num 0)] EmptyData (Some 0), Render 7 [(''x'', Num (5 / 2))] EmptyData (Some 25)]"
proof -
  define w where "w = run [Play 0 (Some (emptyConfig\<lparr>c_from := Some [(''x'', Num 0)],
                                     c_to := Some [(''x'', Num 10)],
                                     c_delay := Some 50, c_duration := Some 100,
                                     c_render := Some 7\<rparr>))]
        (initialWorld (\<lambda>i. i) (\<lambda>a. []) 1 0 (\<lambda>n. if n = ''linear'' then Some linear else None) [])"
  have f: "t_timestamp (tweens w 0) = Some 0" "t_delay (tweens w 0) = 50"
    "t_duration (tweens w 0) = Some 100" "t_filters (tweens w 0) = []"
    "t_easing (tweens w 0) = Some (Single linear)" "t_render (tweens w 0) = Some 7"
    "t_data (tweens w 0) = EmptyData"
    "currentStateOf 0 w = [(''x'', Num 0)]"
    "t_originalState (tweens w 0) = [(''x'', Num 0)]"
    "t_targetState (tweens w 0) = [(''x'', Num 10)]"
    "events w = [Render 7 [(''x'', Num 0)] EmptyData (Some 0)]"
    by (simp_all add: w_def tween.simps resume_internal.simps setConfig_def mergeConfig_def
        orElse_def composeEasingObject_def DEFAULT_EASING_def DEFAULT_DURATION_def eval_defs)
  note t = processTween_delay [of w 0 0 100, unfolded f, simplified]
  have 1: "processTween 0 25 w = Done w"
    using t [of 25] by simp
  from t [of 75] obtain w' where w': "processTween 0 75 w = Done w'"
    and k: "map_of (currentStateOf 0 w') ''x'' = Some (Num (5 / 2))"
    and e: "events w' = [Render 7 [(''x'', Num 0)] EmptyData (Some 0),
                         Render 7 (currentStateOf 0 w') EmptyData (Some 25)]"
    by auto
  have "processTween 0 75 w =
          andThen (runTweenProps 0 75 (Some 100) (0 + t_delay (tweens w 0)) w)
             (\<lambda>w2. Done (callRender 0 (currentStateOf 0 w2)
                            (Some (75 - 0 - t_delay (tweens w 0))) w2))"
    by (rule processTween_active) (simp_all add: f)
  then have "currentStateOf 0 w' = [(''x'', Num (5 / 2))]"
    using w' by (auto simp: f runTweenProps_Single callRender_def
        currentStateOf_def [of 0 "emit _ _"] currentStateOf_def [of 0 "writeCurrentState _ _ _"]
        normalizedPosition_def linear_def)
  with 1 w' e show ?thesis unfolding w_def by simp
qed

text \<open>
  C8. A second \<^verbatim>\<open>pause\<close> right after a \<^verbatim>\<open>pause\<close>, and a second \<^verbatim>\<open>stop\<close> right after a
  \<^verbatim>\<open>stop\<close>, end normally and leave the whole world as the first call left it: the
  playing flag, \<^verbatim>\<open>_pausedAtTime\<close>, the registry, the current state and the calls made to
  callbacks. On a tweenable that is not playing, \<^verbatim>\<open>pause\<close> and \<^verbatim>\<open>stop\<close> change nothing and
  throw nothing.
\<close>

theorem pause_stop_idempotent:
  "pause i (world_of (pause i w)) = Done (world_of (pause i w)) \<and>
   stop g' i (world_of (stop g i w)) = Done (world_of (stop g i w)) \<and>
   (\<not> t_isPlaying (tweens w i) \<longrightarrow> pause i w = Done w \<and> stop g i w = Done w)"
  by (simp add: pause_not_playing stop_not_playing pause_isPlaying stop_isPlaying)

theorem pause_stop_idempotent_witness:
  "\<not> t_isPlaying (tweens (initialWorld (\<lambda>i. i) (\<lambda>a. []) 0 0 (\<lambda>n. None) []) 0) \<and>
   pause 0 (initialWorld (\<lambda>i. i) (\<lambda>a. []) 0 0 (\<lambda>n. None) []) =
     Done (initialWorld (\<lambda>i. i) (\<lambda>a. []) 0 0 (\<lambda>n. None) []) \<and>
   stop True 0 (initialWorld (\<lambda>i. i) (\<lambda>a. []) 0 0 (\<lambda>n. None) []) =
     Done (initialWorld (\<lambda>i. i) (\<lambda>a. []) 0 0 (\<lambda>n. None) []) \<and>
   t_isPlaying (tweens (run [Play 0 None] (initialWorld (\<lambda>i. i) (\<lambda>a. []) 0 0 (\<lambda>n. None) [])) 0) \<and>
   pause 0 (world_of (pause 0
       (run [Play 0 None] (initialWorld (\<lambda>i. i) (\<lambda>a. []) 0 0 (\<lambda>n. None) [])))) =
     Done (world_of (pause 0
       (run [Play 0 None] (initialWorld (\<lambda>i. i) (\<lambda>a. []) 0 0 (\<lambda>n. None) []))))"
proof -
  have "t_isPlaying (tweens (run [Play 0 None]
          (initialWorld (\<lambda>i. i) (\<lambda>a. []) 0 0 (\<lambda>n. None) [])) 0)"
    by (simp add: tween.simps resume_internal.simps eval_defs)
  moreover have "\<not> t_isPlaying (tweens (initialWorld (\<lambda>i. i) (\<lambda>a. []) 0 0 (\<lambda>n. None) []) 0)"
    by (simp add: initialWorld_def newTweenable_def)
  ultimately show ?thesis
    using pause_stop_idempotent [of 0 "initialWorld (\<lambda>i. i) (\<lambda>a. []) 0 0 (\<lambda>n. None) []" True True]
      pause_stop_idempotent [of 0 "run [Play 0 None]
          (initialWorld (\<lambda>i. i) (\<lambda>a. []) 0 0 (\<lambda>n. None) [])" True True]
    by blast
qed

text \<open>
  C9. The specification has the second of two immediate calls \<^verbatim>\<open>seek(0)\<close> stopped by the guard
  \<^verbatim>\<open>this._timestamp + millisecond === 0\<close>, as a no-op. The guard compares the stored
  timestamp, which the first call has set to the clock value. Counterexample: a tweenable
  started when the clock reads 5, with a render callback; after the first \<^verbatim>\<open>seek(0)\<close> its
  timestamp is 5, the guard of the second call does not hold, and the second call runs
  the update again and calls the render callback a second time.
\<close>

theorem seek_zero_twice_counterexample:
  "t_timestamp (tweens (world_of (seek 0 0
       (run [Clock 5, Play 0 (Some (emptyConfig\<lparr>c_from := Some [(''x'', Num 0)],
                                               c_to := Some [(''x'', Num 10)],
                                               c_duration := Some 100, c_render := Some 7\<rparr>))]
          (initialWorld (\<lambda>i. i) (\<lambda>a. []) 1 0
             (\<lambda>n. if n = ''linear'' then Some linear else None) [])))) 0) = Some 5
   \<and> events (world_of (seek 0 0
       (run [Clock 5, Play 0 (Some (emptyConfig\<lparr>c_from := Some [(''x'', Num 0)],
                                               c_to := Some [(''x'', Num 10)],
                                               c_duration := Some 100, c_render := Some 7\<rparr>))]
          (initialWorld (\<lambda>i. i) (\<lambda>a. []) 1 0
             (\<lambda>n. if n = ''linear'' then Some linear else None) []))))
     = [Render 7 [(''x'', Num 0)] EmptyData (Some 0)]
   \<and> events (world_of (seek 0 0 (world_of (seek 0 0
       (run [Clock 5, Play 0 (Some (emptyConfig\<lparr>c_from := Some [(''x'', Num 0)],
                                               c_to := Some [(''x'', Num 10)],
                                               c_duration := Some 100, c_render := Some 7\<rparr>))]
          (initialWorld (\<lambda>i. i) (\<lambda>a. []) 1 0
             (\<lambda>n. if n = ''linear'' then Some linear else None) []))))))
     = [Render 7 [(''x'', Num 0)] EmptyData (Some 0), Render 7 [(''x'', Num 0)] EmptyData (Some 0)]
   \<and> seek 0 0 (world_of (seek 0 0
       (run [Clock 5, Play 0 (Some (emptyConfig\<lparr>c_from := Some [(''x'', Num 0)],
                                               c_to := Some [(''x'', Num 10)],
                                               c_duration := Some 100, c_render := Some 7\<rparr>))]
          (initialWorld (\<lambda>i. i) (\<lambda>a. []) 1 0
             (\<lambda>n. if n = ''linear'' then Some linear else None) []))))
     \<noteq> Done (world_of (seek 0 0
       (run [Clock 5, Play 0 (Some (emptyConfig\<lparr>c_from := Some [(''x'', Num 0)],
                                               c_to := Some [(''x'', Num 10)],
                                               c_duration := Some 100, c_render := Some 7\<rparr>))]
          (initialWorld (\<lambda>i. i) (\<lambda>a. []) 1 0
             (\<lambda>n. if n = ''linear'' then Some linear else None) []))))"
proof -
  define w1 where "w1 = world_of (seek 0 0
       (run [Clock 5, Play 0 (Some (emptyConfig\<lparr>c_from := Some [(''x'', Num 0)],
                                               c_to := Some [(''x'', Num 10)],
                                               c_duration := Some 100, c_render := Some 7\<rparr>))]
          (initialWorld (\<lambda>i. i) (\<lambda>a. []) 1 0
             (\<lambda>n. if n = ''linear'' then Some linear else None) [])))"
  have 1: "t_timestamp (tweens w1 0) = Some 5"
    and 2: "events w1 = [Render 7 [(''x'', Num 0)] EmptyData (Some 0)]"
    and 3: "events (world_of (seek 0 0 w1)) =
              [Render 7 [(''x'', Num 0)] EmptyData (Some 0),
               Render 7 [(''x'', Num 0)] EmptyData (Some 0)]"
    by (simp_all add: w1_def tween.simps resume_internal.simps setConfig_def mergeConfig_def
        orElse_def composeEasingObject_def DEFAULT_EASING_def DEFAULT_DURATION_def eval_defs
        processTween_def runTweenProps_def tweenProps_Single normalizedPosition_def linear_def
        andThen_def)
  have 4: "seek 0 0 w1 \<noteq> Done w1"
  proof
    assume "seek 0 0 w1 = Done w1"
    then have "events (world_of (seek 0 0 w1)) = events w1" by simp
    with 2 3 show False by simp
  qed
  from 1 2 3 4 show ?thesis unfolding w1_def by blast
qed

text \<open>
  C9, amended. \<^verbatim>\<open>seek\<close> clamps a negative time to 0, and \<^verbatim>\<open>seek(0)\<close> is a no-op by the
  guard exactly when the stored timestamp is 0 or \<^verbatim>\<open>null\<close>. For a tweenable without
  filters, with a positive duration and a delay that is not negative, a second
  \<^verbatim>\<open>seek(0)\<close> at the same clock value leaves every tweenable, every object (so the
  timestamp and the current state), the registry and the clock as the first call left
  them, and only adds to the calls made to callbacks. It is a no-op by the guard when the
  clock reads 0 or the first call was one; otherwise, with no delay and a first call that
  ended normally, it runs the update again and calls the render callback once more, with
  the same state and offset 0.
\<close>

theorem seek_zero_twice:
  assumes "t_filters (tweens w i) = []" and "t_duration (tweens w i) = Some d"
    and "0 < d" and "0 \<le> t_delay (tweens w i)"
  shows "seek ms i w = seek (max ms 0) i w
       \<and> ((case t_timestamp (tweens w i) of None \<Rightarrow> 0 | Some ts \<Rightarrow> ts) = 0 \<longrightarrow>
            seek 0 i w = Done w)
       \<and> tweens (world_of (seek 0 i (world_of (seek 0 i w)))) = tweens (world_of (seek 0 i w))
       \<and> objs (world_of (seek 0 i (world_of (seek 0 i w)))) = objs (world_of (seek 0 i w))
       \<and> nextObj (world_of (seek 0 i (world_of (seek 0 i w)))) = nextObj (world_of (seek 0 i w))
       \<and> listHead (world_of (seek 0 i (world_of (seek 0 i w)))) = listHead (world_of (seek 0 i w))
       \<and> listTail (world_of (seek 0 i (world_of (seek 0 i w)))) = listTail (world_of (seek 0 i w))
       \<and> now (world_of (seek 0 i (world_of (seek 0 i w)))) = now (world_of (seek 0 i w))
       \<and> (\<exists>rest. events (world_of (seek 0 i (world_of (seek 0 i w)))) =
                   events (world_of (seek 0 i w)) @ rest)
       \<and> (now w = 0 \<or> (case t_timestamp (tweens w i) of None \<Rightarrow> 0 | Some ts \<Rightarrow> ts) = 0 \<longrightarrow>
            seek 0 i (world_of (seek 0 i w)) = Done (world_of (seek 0 i w)))
       \<and> (now w \<noteq> 0 \<and> (case t_timestamp (tweens w i) of None \<Rightarrow> 0 | Some ts \<Rightarrow> ts) \<noteq> 0 \<and>
          t_delay (tweens w i) = 0 \<and> (\<exists>x. seek 0 i w = Done x) \<longrightarrow>
            events (world_of (seek 0 i (world_of (seek 0 i w)))) =
              events (world_of (seek 0 i w)) @
              (case t_render (tweens w i) of
                 None \<Rightarrow> []
               | Some cb \<Rightarrow> [Render cb (currentStateOf i (world_of (seek 0 i w)))
                              (t_data (tweens w i)) (Some 0)]))"
proof -
  let ?G = "(case t_timestamp (tweens w i) of None \<Rightarrow> 0 | Some ts \<Rightarrow> ts) = (0::rat)"
  let ?w' = "upd i (\<lambda>t. t\<lparr>t_timestamp := Some (now w)\<rparr>) w"
  let ?r = "tweenProps (formulaTable w) (now w) (currentStateOf i w)
              (t_originalState (tweens w i)) (t_targetState (tweens w i)) (Some d) (now w)
              (t_easing (tweens w i))"
  let ?w1 = "world_of (seek 0 i w)"
  let ?a = "t_currentState (tweens w i)"
  note A = seek_zero_world [OF assms]
  have f1: "t_filters (tweens ?w1 i) = []" "t_duration (tweens ?w1 i) = Some d"
    "t_delay (tweens ?w1 i) = t_delay (tweens w i)"
    "t_currentState (tweens ?w1 i) = ?a"
    "t_originalState (tweens ?w1 i) = t_originalState (tweens w i)"
    "t_targetState (tweens ?w1 i) = t_targetState (tweens w i)"
    "t_easing (tweens ?w1 i) = t_easing (tweens w i)"
    "t_render (tweens ?w1 i) = t_render (tweens w i)"
    "t_data (tweens ?w1 i) = t_data (tweens w i)"
    "t_timestamp (tweens ?w1 i) = (if ?G then t_timestamp (tweens w i) else Some (now w))"
    by (simp_all add: A(1) assms)
  have de1: "0 \<le> t_delay (tweens ?w1 i)" using assms(4) by (simp add: f1)
  note B = seek_zero_world [OF f1(1,2) assms(3) de1]
  let ?G1 = "(case t_timestamp (tweens ?w1 i) of None \<Rightarrow> 0 | Some ts \<Rightarrow> ts) = (0::rat)"
  have G1: "?G1 \<longleftrightarrow> ?G \<or> now w = 0"
    by (auto simp: f1(10))
  have same: "\<not> ?G \<Longrightarrow> tweens (upd i (\<lambda>t. t\<lparr>t_timestamp := Some (now ?w1)\<rparr>) ?w1) = tweens ?w1"
    by (simp add: A(1,7) fun_eq_iff)
  have r1: "tweenProps (formulaTable ?w1) (now ?w1) (currentStateOf i ?w1)
              (t_originalState (tweens ?w1 i)) (t_targetState (tweens ?w1 i)) (Some d) (now ?w1)
              (t_easing (tweens ?w1 i)) = ?r"
    if "\<not> ?G" "t_delay (tweens w i) = 0"
    using that by (simp add: f1 A(2,7,8) currentStateOf_def tweenProps_idem)
  have c1: "currentStateOf i ?w1 = r_state ?r" if "\<not> ?G" "t_delay (tweens w i) = 0"
    using that by (simp add: f1 A(2) currentStateOf_def)
  have 1: "seek ms i w = seek (max ms 0) i w"
    by (simp add: seek_def)
  have 2: "?G \<longrightarrow> seek 0 i w = Done w"
    by (simp add: seek_def)
  have 3: "tweens (world_of (seek 0 i ?w1)) = tweens ?w1"
    using same by (auto simp: B(1) G1)
  have 4: "objs (world_of (seek 0 i ?w1)) = objs ?w1"
  proof (cases "?G1 \<or> 0 < t_delay (tweens w i)")
    case True
    then show ?thesis by (simp add: B(2) f1(3))
  next
    case False
    then have ng: "\<not> ?G" and d0: "t_delay (tweens w i) = 0"
      using G1 assms(4) by auto
    have "objs ?w1 ?a = r_state ?r"
      using c1 [OF ng d0] by (simp add: currentStateOf_def f1)
    then show ?thesis
      using False by (simp add: B(2) f1(3,4) r1 [OF ng d0] fun_upd_idem)
  qed
  have 5: "nextObj (world_of (seek 0 i ?w1)) = nextObj ?w1"
    "listHead (world_of (seek 0 i ?w1)) = listHead ?w1"
    "listTail (world_of (seek 0 i ?w1)) = listTail ?w1"
    "now (world_of (seek 0 i ?w1)) = now ?w1"
    by (rule B)+
  have 6: "\<exists>rest. events (world_of (seek 0 i ?w1)) = events ?w1 @ rest"
    by (simp add: B(3))
  have 7: "now w = 0 \<or> ?G \<longrightarrow> seek 0 i ?w1 = Done ?w1"
    using G1 by (auto simp: seek_def [of 0 i ?w1])
  have 8: "now w \<noteq> 0 \<and> \<not> ?G \<and> t_delay (tweens w i) = 0 \<and> (\<exists>x. seek 0 i w = Done x) \<longrightarrow>
            events (world_of (seek 0 i ?w1)) =
              events ?w1 @
              (case t_render (tweens w i) of
                 None \<Rightarrow> []
               | Some cb \<Rightarrow> [Render cb (currentStateOf i ?w1) (t_data (tweens w i)) (Some 0)])"
  proof
    assume h: "now w \<noteq> 0 \<and> \<not> ?G \<and> t_delay (tweens w i) = 0 \<and> (\<exists>x. seek 0 i w = Done x)"
    then have ng: "\<not> ?G" and d0: "t_delay (tweens w i) = 0" and n0: "now w \<noteq> 0" by auto
    have e: "r_error ?r = None" using h A(10) by auto
    have g1: "\<not> ?G1" using G1 ng n0 by simp
    note B3 = B(3) [unfolded r1 [OF ng d0]]
    from e g1 show "events (world_of (seek 0 i ?w1)) =
              events ?w1 @
              (case t_render (tweens w i) of
                 None \<Rightarrow> []
               | Some cb \<Rightarrow> [Render cb (currentStateOf i ?w1) (t_data (tweens w i)) (Some 0)])"
      by (simp add: B3 c1 [OF ng d0] f1(3,8,9) d0 split: option.split)
  qed
  from 1 2 3 4 5 6 7 8 show ?thesis by (simp only: simp_thms)
qed

theorem seek_zero_twice_witness:
  "seek 0 0 (initialWorld (\<lambda>i. i) (\<lambda>a. []) 1 0 (\<lambda>n. None) [])
     = Done (initialWorld (\<lambda>i. i) (\<lambda>a. []) 1 0 (\<lambda>n. None) [])
   \<and> objs (world_of (seek 0 0 (world_of (seek 0 0
       (run [Clock 5, Play 0 (Some (emptyConfig\<lparr>c_from := Some [(''x'', Num 0)],
                                               c_to := Some [(''x'', Num 10)],
                                               c_duration := Some 100, c_render := Some 7\<rparr>))]
          (initialWorld (\<lambda>i. i) (\<lambda>a. []) 1 0
             (\<lambda>n. if n = ''linear'' then Some linear else None) []))))))
     = objs (world_of (seek 0 0
       (run [Clock 5, Play 0 (Some (emptyConfig\<lparr>c_from := Some [(''x'', Num 0)],
                                               c_to := Some [(''x'', Num 10)],
                                               c_duration := Some 100, c_render := Some 7\<rparr>))]
          (initialWorld (\<lambda>i. i) (\<lambda>a. []) 1 0
             (\<lambda>n. if n = ''linear'' then Some linear else None) []))))"
proof -
  define w where "w = run [Clock 5, Play 0 (Some (emptyConfig\<lparr>c_from := Some [(''x'', Num 0)],
                                               c_to := Some [(''x'', Num 10)],
                                               c_duration := Some 100, c_render := Some 7\<rparr>))]
          (initialWorld (\<lambda>i. i) (\<lambda>a. []) 1 0
             (\<lambda>n. if n = ''linear'' then Some linear else None) [])"
  have f: "t_filters (tweens w 0) = []" "t_duration (tweens w 0) = Some 100"
    "(0::rat) < 100" "0 \<le> t_delay (tweens w 0)"
    by (simp_all add: w_def tween.simps resume_internal.simps setConfig_def mergeConfig_def
        orElse_def composeEasingObject_def DEFAULT_EASING_def DEFAULT_DURATION_def eval_defs)
  have "objs (world_of (seek 0 0 (world_of (seek 0 0 w)))) = objs (world_of (seek 0 0 w))"
    using seek_zero_twice [OF f] by blast
  moreover have "seek 0 0 (initialWorld (\<lambda>i. i) (\<lambda>a. []) 1 0 (\<lambda>n. None) [])
     = Done (initialWorld (\<lambda>i. i) (\<lambda>a. []) 1 0 (\<lambda>n. None) [])"
    by (simp add: seek_def initialWorld_def newTweenable_def)
  ultimately show ?thesis unfolding w_def by blast
qed

text \<open>
  C10. For a tweenable whose current state is an allocated object, \<^verbatim>\<open>get\<close> returns a new
  object, different from every allocated one and so from the current state object,
  holding the properties of the current state. The call changes no tweenable, no
  allocated object, nothing of the registry and makes no call to a callback; and however
  the returned object is overwritten afterwards, the current state of the tweenable (and
  of any other tweenable with an allocated current state) stays what it was.
\<close>

theorem get_fresh_copy:
  assumes "t_currentState (tweens w this) < nextObj w"
  shows "fst (get this w) \<noteq> t_currentState (tweens w this)
       \<and> \<not> fst (get this w) < nextObj w
       \<and> objs (snd (get this w)) (fst (get this w)) = currentStateOf this w
       \<and> tweens (snd (get this w)) = tweens w
       \<and> (\<forall>a < nextObj w. objs (snd (get this w)) a = objs w a)
       \<and> currentStateOf this (snd (get this w)) = currentStateOf this w
       \<and> listHead (snd (get this w)) = listHead w
       \<and> listTail (snd (get this w)) = listTail w
       \<and> events (snd (get this w)) = events w
       \<and> (\<forall>s. currentStateOf this
                 ((snd (get this w))\<lparr>objs := (objs (snd (get this w)))(fst (get this w) := s)\<rparr>)
               = currentStateOf this w)
       \<and> (\<forall>s j. t_currentState (tweens w j) < nextObj w \<longrightarrow>
                 currentStateOf j
                   ((snd (get this w))\<lparr>objs := (objs (snd (get this w)))(fst (get this w) := s)\<rparr>)
                 = currentStateOf j w)"
  using assms by (auto simp: get_def Let_def currentStateOf_def)

theorem get_fresh_copy_witness:
  "fst (get 0 (initialWorld (\<lambda>i. 0) (\<lambda>a. [(''x'', Num 1)]) 1 0 (\<lambda>n. None) [])) = 1
   \<and> currentStateOf 0
        ((snd (get 0 (initialWorld (\<lambda>i. 0) (\<lambda>a. [(''x'', Num 1)]) 1 0 (\<lambda>n. None) [])))
           \<lparr>objs := (objs (snd (get 0 (initialWorld (\<lambda>i. 0) (\<lambda>a. [(''x'', Num 1)]) 1 0
                                      (\<lambda>n. None) []))))
                      (fst (get 0 (initialWorld (\<lambda>i. 0) (\<lambda>a. [(''x'', Num 1)]) 1 0
                                      (\<lambda>n. None) [])) := [(''x'', Num 2)])\<rparr>)
       = [(''x'', Num 1)]"
  using get_fresh_copy [of "initialWorld (\<lambda>i. 0) (\<lambda>a. [(''x'', Num 1)]) 1 0 (\<lambda>n. None) []" 0]
  by (simp add: initialWorld_def newTweenable_def get_def currentStateOf_def)

end
